theory Spec2Isabelle
  imports Complex_Main "HOL-Library.Word"
begin

section \<open>Strings and integers as Python has them\<close>

text \<open>
  Strings are lists of characters; a character stands for a code point below 256.
  The whitespace of \<^verbatim>\<open>str.strip()\<close> and of the whitespace class of regular
  expressions in that range is TAB, LF, VT, FF, CR, the separators 0x1C..0x1F, the blank, NEL (0x85) and the
  no-break space (0xA0).
\<close>

definition is_space :: "char \<Rightarrow> bool" where
  "is_space c = (c \<in> set [CHR 0x09, CHR 0x0A, CHR 0x0B, CHR 0x0C, CHR 0x0D,
                            CHR 0x1C, CHR 0x1D, CHR 0x1E, CHR 0x1F, CHR 0x20,
                            CHR 0x85, CHR 0xA0])"

text \<open>\<^verbatim>\<open>s.strip(chars)\<close>: removes the leading and trailing characters that satisfy \<open>P\<close>.\<close>

definition strip_where :: "(char \<Rightarrow> bool) \<Rightarrow> string \<Rightarrow> string" where
  "strip_where P s = rev (dropWhile P (rev (dropWhile P s)))"

definition strip :: "string \<Rightarrow> string" where
  "strip s = strip_where is_space s"

text \<open>
  \<^verbatim>\<open>re.sub(r"[...]+", rep, s)\<close> for a character class: every maximal run of
  characters of the class becomes one \<open>rep\<close>. The flag says whether the previous
  character belonged to a run.
\<close>

fun sub_runs :: "(char \<Rightarrow> bool) \<Rightarrow> char \<Rightarrow> bool \<Rightarrow> string \<Rightarrow> string" where
  "sub_runs P rep in_run [] = []"
| "sub_runs P rep in_run (c # cs) =
     (if P c then (if in_run then sub_runs P rep True cs else rep # sub_runs P rep True cs)
      else c # sub_runs P rep False cs)"

definition is_forbidden :: "char \<Rightarrow> bool" where
  "is_forbidden c = (c \<in> set [CHR ''/'', CHR 0x5C, CHR '':'', CHR ''*'', CHR ''?'',
                                CHR 0x22, CHR ''<'', CHR ''>'', CHR ''|''])"

text \<open>
  \<^verbatim>\<open>
  def sanitize(s):
      s = (s or "").strip()
      s = re.sub(FORBIDDEN + "+", "_", s)
      s = re.sub(WHITESPACE + "+", " ", s).strip()
      return s[:180] if s else "unknown"
  \<close>
  where FORBIDDEN is the class of the slash, the backslash, the colon, the star, the
  question mark, the double quote, the angle brackets and the bar, and WHITESPACE is
  the class of whitespace characters.
\<close>

definition sanitize :: "string \<Rightarrow> string" where
  "sanitize s0 =
     (let s1 = strip s0;
          s2 = sub_runs is_forbidden (CHR ''_'') False s1;
          s3 = strip (sub_runs is_space (CHR '' '') False s2)
      in if s3 \<noteq> [] then take 180 s3 else ''unknown'')"

text \<open>\<^verbatim>\<open>str(i)\<close> for an integer: decimal digits, a minus sign for negative numbers.\<close>

definition digit_char :: "nat \<Rightarrow> char" where
  "digit_char d = ''0123456789'' ! d"

definition digit_val :: "char \<Rightarrow> nat" where
  "digit_val c = of_char c - 48"

fun str_nat :: "nat \<Rightarrow> string" where
  "str_nat n = (if n < 10 then [digit_char n] else str_nat (n div 10) @ [digit_char (n mod 10)])"

declare str_nat.simps [simp del]

definition py_str_int :: "int \<Rightarrow> string" where
  "py_str_int i = (if i < 0 then CHR ''-'' # str_nat (nat (- i)) else str_nat (nat i))"

text \<open>
  \<^verbatim>\<open>os.path.join(a, b)\<close> on POSIX: an absolute \<open>b\<close> replaces \<open>a\<close>; otherwise the two are
  joined with one slash unless \<open>a\<close> is empty or already ends with a slash.
\<close>

definition path_join :: "string \<Rightarrow> string \<Rightarrow> string" where
  "path_join a b =
     (if b \<noteq> [] \<and> hd b = CHR ''/'' then b
      else if a = [] \<or> last a = CHR ''/'' then a @ b
      else a @ ''/'' @ b)"

section \<open>Output paths\<close>

text \<open>
  The disk is the list of the paths for which \<^verbatim>\<open>os.path.exists\<close> answers true.
  \<^verbatim>\<open>
  def unique_path(self, base):
      base = sanitize(base)
      path = os.path.join(self.out_dir, f"{base}.flac")
      if not os.path.exists(path):
          return path
      i = 2
      while True:
          p = os.path.join(self.out_dir, f"{base} ({i}).flac")
          if not os.path.exists(p):
              return p
          i += 1
  \<close>
  \<open>numbered\<close> is the candidate of the loop for the counter \<open>i\<close>; \<open>unique_loop\<close> is the
  loop, from the counter \<open>i\<close> on.
\<close>

definition numbered :: "string \<Rightarrow> string \<Rightarrow> nat \<Rightarrow> string" where
  "numbered dir base i = path_join dir (base @ '' ('' @ str_nat i @ '').flac'')"

lemma digit_val_digit_char: "d < 10 \<Longrightarrow> digit_val (digit_char d) = d"
proof -
  assume "d < 10"
  then have "d \<in> {0, 1, 2, 3, 4, 5, 6, 7, 8, 9}" by auto
  then show ?thesis by (auto simp: digit_val_def digit_char_def)
qed

definition nat_of_digits :: "string \<Rightarrow> nat" where
  "nat_of_digits s = foldl (\<lambda>a c. 10 * a + digit_val c) 0 s"

lemma nat_of_digits_str_nat: "nat_of_digits (str_nat n) = n"
proof (induction n rule: str_nat.induct)
  case (1 n)
  show ?case
  proof (cases "n < 10")
    case True
    then show ?thesis
      by (simp add: str_nat.simps [of n] nat_of_digits_def digit_val_digit_char)
  next
    case False
    have "nat_of_digits (str_nat n) = 10 * nat_of_digits (str_nat (n div 10)) + digit_val (digit_char (n mod 10))"
      using False by (simp add: str_nat.simps [of n] nat_of_digits_def)
    also have "\<dots> = 10 * (n div 10) + n mod 10"
      using 1 False by (simp add: digit_val_digit_char)
    finally show ?thesis by simp
  qed
qed

lemma str_nat_inj: "str_nat m = str_nat n \<Longrightarrow> m = n"
  by (metis nat_of_digits_str_nat)

lemma path_join_inj: "path_join d a = path_join d c \<Longrightarrow> a \<noteq> [] \<Longrightarrow> c \<noteq> [] \<Longrightarrow> hd a = hd c \<Longrightarrow> a = c"
  by (simp add: path_join_def split: if_splits)

lemma numbered_inj: "numbered d b i = numbered d b j \<Longrightarrow> i = j"
proof -
  assume eq: "numbered d b i = numbered d b j"
  define a where "a = b @ '' ('' @ str_nat i @ '').flac''"
  define c where "c = b @ '' ('' @ str_nat j @ '').flac''"
  have ne: "a \<noteq> []" "c \<noteq> []" by (simp_all add: a_def c_def)
  have hd: "hd a = hd c" by (cases b) (simp_all add: a_def c_def)
  have "path_join d a = path_join d c"
    using eq by (simp add: numbered_def a_def c_def)
  then have "a = c" using ne hd by (rule path_join_inj)
  then have "str_nat i = str_nat j" by (simp add: a_def c_def)
  then show "i = j" by (rule str_nat_inj)
qed

lemma finite_numbered: "finite {j. numbered d b j \<in> set fs}"
proof -
  have "inj (numbered d b)" by (auto simp: inj_def dest: numbered_inj)
  then have "finite (numbered d b -` set fs)" by (intro finite_vimageI) simp_all
  then show ?thesis by (simp add: vimage_def)
qed

function unique_loop :: "string \<Rightarrow> string list \<Rightarrow> string \<Rightarrow> nat \<Rightarrow> string" where
  "unique_loop dir fs base i =
     (if numbered dir base i \<notin> set fs then numbered dir base i
      else unique_loop dir fs base (i + 1))"
  by pat_completeness auto
termination
proof (relation "measure (\<lambda>(dir, fs, base, i). card {j. i \<le> j \<and> numbered dir base j \<in> set fs})")
  show "wf (measure (\<lambda>(dir, fs, base, i). card {j. i \<le> j \<and> numbered dir base j \<in> set fs}))"
    by simp
next
  fix dir fs base i
  assume "\<not> numbered dir base i \<notin> set fs"
  then have mem: "numbered dir base i \<in> set fs" by simp
  have fin: "finite {j. i \<le> j \<and> numbered dir base j \<in> set fs}"
    by (rule finite_subset [OF _ finite_numbered [of dir base fs]]) auto
  have "{j. i + 1 \<le> j \<and> numbered dir base j \<in> set fs} \<subset> {j. i \<le> j \<and> numbered dir base j \<in> set fs}"
  proof (rule psubsetI)
    show "{j. i + 1 \<le> j \<and> numbered dir base j \<in> set fs} \<subseteq> {j. i \<le> j \<and> numbered dir base j \<in> set fs}"
      by auto
    have "i \<in> {j. i \<le> j \<and> numbered dir base j \<in> set fs}" using mem by simp
    moreover have "i \<notin> {j. i + 1 \<le> j \<and> numbered dir base j \<in> set fs}" by simp
    ultimately show "{j. i + 1 \<le> j \<and> numbered dir base j \<in> set fs} \<noteq> {j. i \<le> j \<and> numbered dir base j \<in> set fs}"
      by blast
  qed
  then have "card {j. i + 1 \<le> j \<and> numbered dir base j \<in> set fs} < card {j. i \<le> j \<and> numbered dir base j \<in> set fs}"
    by (rule psubset_card_mono [OF fin])
  then show "((dir, fs, base, i + 1), (dir, fs, base, i))
        \<in> measure (\<lambda>(dir, fs, base, i). card {j. i \<le> j \<and> numbered dir base j \<in> set fs})"
    by simp
qed

declare unique_loop.simps [simp del]

definition unique_path :: "string \<Rightarrow> string list \<Rightarrow> string \<Rightarrow> string" where
  "unique_path dir fs base0 =
     (let base = sanitize base0;
          path = path_join dir (base @ ''.flac'')
      in if path \<notin> set fs then path else unique_loop dir fs base 2)"

text \<open>
  The scenario of repeated requests: \<open>n\<close> paths are asked for the same base name, each
  returned path existing from then on.
\<close>

fun request_paths :: "nat \<Rightarrow> string \<Rightarrow> string list \<Rightarrow> string \<Rightarrow> string list" where
  "request_paths 0 dir fs base = []"
| "request_paths (Suc n) dir fs base =
     (let p = unique_path dir fs base in p # request_paths n dir (p # fs) base)"

section \<open>Metadata\<close>

datatype error =
  FileNotFoundError | PermissionError | IsADirectoryError | OSError | ValueError | TypeError

text \<open>
  The values the entries of the property bag hold. A basic value is an integer of one
  of the bus's integer types, all of which fit in 64 bits (read as signed or as
  unsigned), or a string (an object path is one). The artist entry may also hold an
  array of basic values.
\<close>

datatype dbus_basic = DInt "64 word" | DUInt "64 word" | DString string

datatype dbus_value = DBasic dbus_basic | DArray "dbus_basic list"

definition is_digit :: "char \<Rightarrow> bool" where
  "is_digit c = (c \<in> set ''0123456789'')"

text \<open>
  The whitespace that \<^verbatim>\<open>int(s)\<close> skips at both ends of a string: the ASCII characters TAB,
  LF, VT, FF, CR and blank, and the whitespace beyond ASCII (NEL and the no-break space
  in this range). The separators 0x1C..0x1F are not skipped.
\<close>

definition is_int_space :: "char \<Rightarrow> bool" where
  "is_int_space c = (c \<in> set [CHR 0x09, CHR 0x0A, CHR 0x0B, CHR 0x0C, CHR 0x0D, CHR 0x20,
                                CHR 0x85, CHR 0xA0])"

text \<open>
  The digits of \<^verbatim>\<open>int(s)\<close>: decimal digits, single underscores between digits only.
  The flag says whether the previous character was a digit.
\<close>

fun digits_ok :: "bool \<Rightarrow> string \<Rightarrow> bool" where
  "digits_ok prev [] = prev"
| "digits_ok prev (c # cs) =
     (if is_digit c then digits_ok True cs
      else (c = CHR ''_'' \<and> prev \<and> digits_ok False cs))"

text \<open>The most digits \<^verbatim>\<open>int(s)\<close> and \<^verbatim>\<open>str(i)\<close> convert (the interpreter's default).\<close>

definition max_str_digits :: nat where
  "max_str_digits = 4300"

definition int_of_string :: "string \<Rightarrow> error + int" where
  "int_of_string s =
     (let t = strip_where is_int_space s;
          neg = (t \<noteq> [] \<and> hd t = CHR ''-'');
          body = (if t \<noteq> [] \<and> (hd t = CHR ''-'' \<or> hd t = CHR ''+'') then tl t else t)
      in if digits_ok False body \<and> length (filter is_digit body) \<le> max_str_digits
         then Inr ((if neg then - 1 else 1) * int (nat_of_digits (filter is_digit body)))
         else Inl ValueError)"

fun py_int :: "dbus_basic \<Rightarrow> error + int" where
  "py_int (DInt i) = Inr (sint i)"
| "py_int (DUInt i) = Inr (uint i)"
| "py_int (DString s) = int_of_string s"

text \<open>\<^verbatim>\<open>str(i)\<close> for an integer, with the limit on the number of digits.\<close>

definition str_of_int :: "int \<Rightarrow> error + string" where
  "str_of_int i =
     (if length (str_nat (nat \<bar>i\<bar>)) \<le> max_str_digits then Inr (py_str_int i) else Inl ValueError)"

text \<open>
  \<^verbatim>\<open>
  def to_int_str(v) -> str:
      if v is None:
          return ""
      try:
          i = int(v)
          return str(i) if i > 0 else ""
      except Exception:
          return ""
  \<close>
\<close>

definition to_int_str :: "dbus_basic option \<Rightarrow> string" where
  "to_int_str v =
     (case v of
        None \<Rightarrow> []
      | Some x \<Rightarrow> (case py_int x of
                     Inl e \<Rightarrow> []
                   | Inr i \<Rightarrow> if i > 0 then (case str_of_int i of Inl e \<Rightarrow> [] | Inr s \<Rightarrow> s)
                              else []))"

text \<open>
  The property bag that the player answers to \<^verbatim>\<open>Get(..., "Metadata")\<close>, with the entries
  the recorder reads; \<open>None\<close> is an absent key. The entries other than the artist are
  taken to hold basic values: whatever they hold, \<^verbatim>\<open>str\<close> of them does not raise and
  \<^verbatim>\<open>to_int_str\<close> catches every exception.
\<close>

record raw_metadata =
  mpris_trackid :: "dbus_basic option"
  xesam_artist :: "dbus_value option"
  xesam_title :: "dbus_basic option"
  xesam_album :: "dbus_basic option"
  xesam_url :: "dbus_basic option"
  xesam_trackNumber :: "dbus_basic option"
  xesam_discNumber :: "dbus_basic option"

record metadata =
  trackid :: string
  artist :: string
  title :: string
  album :: string
  url :: string
  tracknumber :: string
  discnumber :: string

text \<open>\<^verbatim>\<open>str(x)\<close> for a basic value, and \<^verbatim>\<open>str(md.get(key, ""))\<close>.\<close>

fun py_str :: "dbus_basic \<Rightarrow> string" where
  "py_str (DInt i) = py_str_int (sint i)"
| "py_str (DUInt i) = py_str_int (uint i)"
| "py_str (DString s) = s"

definition get_text :: "dbus_basic option \<Rightarrow> string" where
  "get_text v = (case v of None \<Rightarrow> [] | Some x \<Rightarrow> py_str x)"

text \<open>Truth value of a value, as \<^verbatim>\<open>x or []\<close> and \<^verbatim>\<open>if x\<close> test it.\<close>

fun truthy :: "dbus_value \<Rightarrow> bool" where
  "truthy (DBasic (DInt i)) = (i \<noteq> 0)"
| "truthy (DBasic (DUInt i)) = (i \<noteq> 0)"
| "truthy (DBasic (DString s)) = (s \<noteq> [])"
| "truthy (DArray xs) = (xs \<noteq> [])"

text \<open>
  \<^verbatim>\<open>x[0]\<close> for a truthy value: the first element of an array, the first character of a
  string; an integer is not subscriptable.
\<close>

fun first_item :: "dbus_value \<Rightarrow> error + dbus_basic" where
  "first_item (DArray (x # xs)) = Inr x"
| "first_item (DBasic (DString (c # cs))) = Inr (DString [c])"
| "first_item (DBasic (DInt i)) = Inl TypeError"
| "first_item (DBasic (DUInt i)) = Inl TypeError"
| "first_item (DArray []) = Inl TypeError"
| "first_item (DBasic (DString [])) = Inl TypeError"

text \<open>The values that \<^verbatim>\<open>x[0]\<close> accepts: arrays and strings.\<close>

fun indexable :: "dbus_value \<Rightarrow> bool" where
  "indexable (DArray xs) = True"
| "indexable (DBasic (DString s)) = True"
| "indexable (DBasic (DInt i)) = False"
| "indexable (DBasic (DUInt i)) = False"

text \<open>
  \<^verbatim>\<open>
  def get_metadata(self):
      md = self.props.Get("org.mpris.MediaPlayer2.Player", "Metadata")
      artists = md.get("xesam:artist") or []
      artist = str(artists[0]) if artists else ""
      return {
          "trackid": str(md.get("mpris:trackid", "")),
          "artist": artist,
          "title": str(md.get("xesam:title", "")),
          "album": str(md.get("xesam:album", "")),
          "url": str(md.get("xesam:url", "")),
          "tracknumber": to_int_str(md.get("xesam:trackNumber")),
          "discnumber": to_int_str(md.get("xesam:discNumber")),
      }
  \<close>
  The argument is the bag that \<^verbatim>\<open>Get\<close> returns. The last two equations of
  \<open>first_item\<close> are never reached: an empty array and an empty string are not truthy.
\<close>

definition get_metadata :: "raw_metadata \<Rightarrow> error + metadata" where
  "get_metadata md =
     (case (case xesam_artist md of
              None \<Rightarrow> Inr []
            | Some v \<Rightarrow> if truthy v
                        then (case first_item v of Inl e \<Rightarrow> Inl e | Inr x \<Rightarrow> Inr (py_str x))
                        else Inr []) of
        Inl e \<Rightarrow> Inl e
      | Inr a \<Rightarrow>
          Inr \<lparr> trackid = get_text (mpris_trackid md),
                artist = a,
                title = get_text (xesam_title md),
                album = get_text (xesam_album md),
                url = get_text (xesam_url md),
                tracknumber = to_int_str (xesam_trackNumber md),
                discnumber = to_int_str (xesam_discNumber md) \<rparr>)"

section \<open>The recorder and its environment\<close>

text \<open>
  The fields of \<^verbatim>\<open>Recorder\<close>. \<open>proc\<close> holds the argument vector of the supervised child
  process; \<open>pending = None\<close> is the empty dictionary of \<^verbatim>\<open>__init__\<close>. Times are real
  numbers of seconds.
\<close>

record recorder =
  out_dir :: string
  source :: string
  comp_level :: int
  min_seconds :: int
  dedupe :: bool
  proc :: "string list option"
  current_path :: "string option"
  current_started_at :: "real option"
  current_track_id :: "string option"
  current_url :: "string option"
  playback_status :: "string option"
  pending :: "metadata option"
  seen_urls :: "string set"

datatype stop = Interrupted | Killed

datatype status_value = SStr string | SInt int | SSeconds real

text \<open>
  What the recorder acts on outside itself: the paths that exist on disk, the lines of
  the index file (\<open>None\<close> when the file is missing), the key/value lines of the status
  file, the argument vectors of the child processes spawned so far and how each
  finalized child was stopped.
\<close>

record world =
  files :: "string list"
  index_file :: "string list option"
  status_file :: "(string \<times> status_value) list"
  spawned :: "string list list"
  stopped :: "stop list"

text \<open>
  How \<^verbatim>\<open>os.remove\<close> can fail on a path that exists, and the exception it raises then.
\<close>

datatype os_failure = PermissionDenied | IsADirectory | ReadOnlyFileSystem

fun os_error :: "os_failure \<Rightarrow> error" where
  "os_error PermissionDenied = PermissionError"
| "os_error IsADirectory = IsADirectoryError"
| "os_error ReadOnlyFileSystem = OSError"

text \<open>
  What the environment decides during one operation of the recorder: the reading of
  the clock, the bag the player answers, whether the child exits within the five
  seconds after the interrupt, whether the writes to the index file and to the
  status file succeed, and whether and how the deletion of an existing file fails.
\<close>

record call_env =
  now :: real
  reply :: raw_metadata
  exits_in_time :: bool
  index_ok :: bool
  status_ok :: bool
  remove_fails :: "os_failure option"

text \<open>
  The outcome of an operation of the recorder: it returns, or it raises; either way
  the recorder and the world are as the operation left them.
\<close>

type_synonym outcome = "(error \<times> recorder \<times> world) + (recorder \<times> world)"

definition state_of :: "outcome \<Rightarrow> recorder \<times> world" where
  "state_of out = (case out of Inl (err, s) \<Rightarrow> s | Inr s \<Rightarrow> s)"

text \<open>Truth value of an optional string, as \<^verbatim>\<open>if x\<close> tests it.\<close>

definition truthy_str :: "string option \<Rightarrow> bool" where
  "truthy_str v = (case v of None \<Rightarrow> False | Some s \<Rightarrow> s \<noteq> [])"

text \<open>\<^verbatim>\<open>x or ""\<close> for an optional string.\<close>

definition get_str :: "string option \<Rightarrow> string" where
  "get_str v = (case v of None \<Rightarrow> [] | Some s \<Rightarrow> s)"

text \<open>\<^verbatim>\<open>try: ... except Exception: (go on)\<close>: any error of the body is swallowed.\<close>

definition swallow :: "error + 'a \<Rightarrow> 'a \<Rightarrow> error + 'a" where
  "swallow m fallback = (case m of Inl e \<Rightarrow> Inr fallback | Inr x \<Rightarrow> Inr x)"

text \<open>Opening the status file for writing and writing the fields; fails as a whole.\<close>

definition write_file :: "bool \<Rightarrow> (string \<times> status_value) list \<Rightarrow> world \<Rightarrow> error + world" where
  "write_file ok kvs w = (if ok then Inr (w\<lparr>status_file := kvs\<rparr>) else Inl OSError)"

definition write_status :: "bool \<Rightarrow> (string \<times> status_value) list \<Rightarrow> world \<Rightarrow> error + world" where
  "write_status ok kvs w = swallow (write_file ok kvs w) w"

text \<open>Opening the index file for appending and writing one line.\<close>

definition append_file :: "bool \<Rightarrow> string \<Rightarrow> world \<Rightarrow> error + world" where
  "append_file ok line w =
     (if ok then Inr (w\<lparr>index_file := Some ((case index_file w of None \<Rightarrow> [] | Some ls \<Rightarrow> ls) @ [line])\<rparr>)
      else Inl OSError)"

text \<open>
  \<^verbatim>\<open>
  def _load_index(self):
      try:
          with open(self.index_file, "r", encoding="utf-8") as f:
              for line in f:
                  u = line.strip()
                  if u:
                      self.seen_urls.add(u)
      except FileNotFoundError:
          pass
  \<close>
\<close>

definition load_index :: "recorder \<Rightarrow> world \<Rightarrow> recorder" where
  "load_index r w =
     (case index_file w of
        None \<Rightarrow> r
      | Some ls \<Rightarrow> r\<lparr>seen_urls := seen_urls r \<union> {u \<in> set (map strip ls). u \<noteq> []}\<rparr>)"

text \<open>
  \<^verbatim>\<open>
  def _append_index(self, url: str):
      if not url:
          return
      self.seen_urls.add(url)
      try:
          with open(self.index_file, "a", encoding="utf-8") as f:
              f.write(url + "\n")
      except Exception as e:
          print(...)
  \<close>
\<close>

definition append_index :: "recorder \<Rightarrow> world \<Rightarrow> bool \<Rightarrow> string \<Rightarrow> error + recorder \<times> world" where
  "append_index r w ok u =
     (if u = [] then Inr (r, w)
      else let r1 = r\<lparr>seen_urls := insert u (seen_urls r)\<rparr>
           in case swallow (append_file ok u w) w of
                Inl e \<Rightarrow> Inl e
              | Inr w1 \<Rightarrow> Inr (r1, w1))"

text \<open>
  \<^verbatim>\<open>os.remove(path)\<close>: a missing path raises \<^verbatim>\<open>FileNotFoundError\<close>; an existing one is deleted
  unless the environment makes the deletion fail.
\<close>

definition os_remove :: "os_failure option \<Rightarrow> string \<Rightarrow> world \<Rightarrow> error + world" where
  "os_remove fails p w =
     (if p \<notin> set (files w) then Inl FileNotFoundError
      else case fails of
             None \<Rightarrow> Inr (w\<lparr>files := removeAll p (files w)\<rparr>)
           | Some f \<Rightarrow> Inl (os_error f))"

section \<open>Finalizing and starting a recording\<close>

text \<open>
  The policy part of \<^verbatim>\<open>_finalize\<close>, after the child has been stopped:
  \<^verbatim>\<open>
  kept = False
  dur = 0.0
  if self.current_path and self.current_started_at:
      dur = time.time() - self.current_started_at
      if dur < self.min_seconds:
          try:
              os.remove(self.current_path)
              print(...)
          except FileNotFoundError:
              pass
      else:
          print(...)
          kept = True
  \<close>
  The result is \<open>(kept, dur)\<close> and the disk afterwards; an error of \<^verbatim>\<open>os.remove\<close> other than
  \<^verbatim>\<open>FileNotFoundError\<close> is not caught.
\<close>

definition keep_or_drop :: "recorder \<Rightarrow> world \<Rightarrow> call_env \<Rightarrow> error + bool \<times> real \<times> world" where
  "keep_or_drop r w e =
     (case (current_path r, current_started_at r) of
        (Some p, Some t0) \<Rightarrow>
          if p \<noteq> [] \<and> t0 \<noteq> 0 then
            (let dur = now e - t0
             in if dur < real_of_int (min_seconds r) then
                  (case os_remove (remove_fails e) p w of
                     Inr w1 \<Rightarrow> Inr (False, dur, w1)
                   | Inl err \<Rightarrow> if err = FileNotFoundError then Inr (False, dur, w) else Inl err)
                else Inr (True, dur, w))
          else Inr (False, 0, w)
      | _ \<Rightarrow> Inr (False, 0, w))"

text \<open>
  \<^verbatim>\<open>
  def _finalize(self):
      if not self.proc:
          return
      try:
          self.proc.send_signal(signal.SIGINT)
          self.proc.wait(timeout=5)
      except Exception:
          self.proc.kill()
      finally:
          self.proc = None
      (kept, dur as above)
      if kept and self.dedupe and self.current_url:
          self._append_index(self.current_url)
      self._write_status(STATE="idle", LAST_RESULT=("KEEP" if kept else "DROP"),
          LAST_DURATION=f"{dur:.1f}", LAST_FILE=self.current_path or "",
          LAST_SPOTIFY_URL=self.current_url or "")
      self.current_path = None
      self.current_started_at = None
      self.current_track_id = None
      self.current_url = None
  \<close>
  An exception that escapes leaves \<open>proc\<close> cleared and the four context fields as they
  were.
\<close>

definition finalize :: "recorder \<Rightarrow> world \<Rightarrow> call_env \<Rightarrow> outcome" where
  "finalize r w e =
     (case proc r of
        None \<Rightarrow> Inr (r, w)
      | Some p \<Rightarrow>
          (let w1 = w\<lparr>stopped := stopped w @ [if exits_in_time e then Interrupted else Killed]\<rparr>;
               r1 = r\<lparr>proc := None\<rparr>
           in case keep_or_drop r1 w1 e of
                Inl err \<Rightarrow> Inl (err, r1, w1)
              | Inr (kept, dur, w2) \<Rightarrow>
                  (case (if kept \<and> dedupe r1 \<and> truthy_str (current_url r1)
                         then append_index r1 w2 (index_ok e) (get_str (current_url r1))
                         else Inr (r1, w2)) of
                     Inl err \<Rightarrow> Inl (err, r1, w2)
                   | Inr (r2, w3) \<Rightarrow>
                       (case write_status (status_ok e)
                               [(''STATE'', SStr ''idle''),
                                (''LAST_RESULT'', SStr (if kept then ''KEEP'' else ''DROP'')),
                                (''LAST_DURATION'', SSeconds dur),
                                (''LAST_FILE'', SStr (get_str (current_path r2))),
                                (''LAST_SPOTIFY_URL'', SStr (get_str (current_url r2)))] w3 of
                          Inl err \<Rightarrow> Inl (err, r2, w3)
                        | Inr w4 \<Rightarrow>
                            Inr (r2\<lparr>current_path := None, current_started_at := None,
                                    current_track_id := None, current_url := None\<rparr>, w4)))))"

text \<open>The argument vector that \<^verbatim>\<open>_start\<close> builds for the encoder.\<close>

definition ffmpeg_cmd :: "recorder \<Rightarrow> metadata \<Rightarrow> string \<Rightarrow> string list" where
  "ffmpeg_cmd r md out_path =
     [''ffmpeg'', ''-hide_banner'', ''-loglevel'', ''error'',
      ''-f'', ''pulse'', ''-i'', source r,
      ''-acodec'', ''flac'',
      ''-compression_level'', py_str_int (comp_level r),
      ''-metadata'', ''ARTIST='' @ artist md,
      ''-metadata'', ''TITLE='' @ title md]
     @ (if album md \<noteq> [] then [''-metadata'', ''ALBUM='' @ album md] else [])
     @ (if url md \<noteq> [] then [''-metadata'', ''SPOTIFY_URL='' @ url md] else [])
     @ (if tracknumber md \<noteq> [] then [''-metadata'', ''TRACKNUMBER='' @ tracknumber md] else [])
     @ (if discnumber md \<noteq> [] then [''-metadata'', ''DISCNUMBER='' @ discnumber md] else [])
     @ [out_path]"

text \<open>\<^verbatim>\<open>int(t)\<close> for a time: truncation towards zero.\<close>

definition py_trunc :: "real \<Rightarrow> int" where
  "py_trunc t = (if t \<ge> 0 then \<lfloor>t\<rfloor> else \<lceil>t\<rceil>)"

text \<open>
  \<^verbatim>\<open>
  def _start(self, md):
      os.makedirs(self.out_dir, exist_ok=True)
      url = md.get("url") or ""
      if self.dedupe and url and url in self.seen_urls:
          artist = md.get("artist", "").strip()
          title = md.get("title", "").strip()
          print(...)
          self._write_status(STATE="skipped", ARTIST=artist, TITLE=title, SPOTIFY_URL=url)
          self.current_track_id = md.get("trackid")
          self.current_url = url
          return
      name = f"{md['artist']} - {md['title']}".strip(" -")
      out_path = self.unique_path(name)
      cmd = [...]
      self.proc = subprocess.Popen(cmd)
      self.current_path = out_path
      self.current_started_at = time.time()
      self.current_track_id = md["trackid"]
      self.current_url = url
      self._write_status(STATE="recording", ARTIST=..., TITLE=..., FILE=out_path,
          STARTED_AT=int(self.current_started_at), SPOTIFY_URL=url)
  \<close>
  The directory of the recordings is taken to exist, and the encoder to be installed.
\<close>

definition start :: "recorder \<Rightarrow> world \<Rightarrow> call_env \<Rightarrow> metadata \<Rightarrow> outcome" where
  "start r w e md =
     (let u = url md
      in if dedupe r \<and> u \<noteq> [] \<and> u \<in> seen_urls r then
           (case write_status (status_ok e)
                   [(''STATE'', SStr ''skipped''),
                    (''ARTIST'', SStr (strip (artist md))),
                    (''TITLE'', SStr (strip (title md))),
                    (''SPOTIFY_URL'', SStr u)] w of
              Inl err \<Rightarrow> Inl (err, r, w)
            | Inr w1 \<Rightarrow> Inr (r\<lparr>current_track_id := Some (trackid md), current_url := Some u\<rparr>, w1))
         else
           (let name = strip_where (\<lambda>c. c \<in> set '' -'') (artist md @ '' - '' @ title md);
                out_path = unique_path (out_dir r) (files w) name;
                cmd = ffmpeg_cmd r md out_path;
                w1 = w\<lparr>spawned := spawned w @ [cmd]\<rparr>;
                r1 = r\<lparr>proc := Some cmd, current_path := Some out_path,
                       current_started_at := Some (now e),
                       current_track_id := Some (trackid md), current_url := Some u\<rparr>
            in case write_status (status_ok e)
                   [(''STATE'', SStr ''recording''),
                    (''ARTIST'', SStr (strip (artist md))),
                    (''TITLE'', SStr (strip (title md))),
                    (''FILE'', SStr out_path),
                    (''STARTED_AT'', SInt (py_trunc (now e))),
                    (''SPOTIFY_URL'', SStr u)] w1 of
                 Inl err \<Rightarrow> Inl (err, r1, w1)
               | Inr w2 \<Rightarrow> Inr (r1, w2)))"

section \<open>The playback state machine\<close>

text \<open>
  \<^verbatim>\<open>
  def _ensure_started(self):
      if self.playback_status != "Playing" or self.proc:
          return
      md = self.pending
      if not md.get("title"):
          md = self.get_metadata()
          self.pending = md
      if md.get("title"):
          self._start(md)
  \<close>
  \<open>titled\<close> is the pending metadata when it has a title.
\<close>

definition titled :: "metadata option \<Rightarrow> metadata option" where
  "titled m = (case m of None \<Rightarrow> None | Some md0 \<Rightarrow> if title md0 = [] then None else Some md0)"

definition ensure_started :: "recorder \<Rightarrow> world \<Rightarrow> call_env \<Rightarrow> outcome" where
  "ensure_started r w e =
     (if playback_status r \<noteq> Some ''Playing'' \<or> proc r \<noteq> None then Inr (r, w)
      else case titled (pending r) of
             Some md \<Rightarrow> start r w e md
           | None \<Rightarrow>
               (case get_metadata (reply e) of
                  Inl err \<Rightarrow> Inl (err, r, w)
                | Inr md \<Rightarrow>
                    (let r1 = r\<lparr>pending := Some md\<rparr>
                     in if title md \<noteq> [] then start r1 w e md else Inr (r1, w))))"

text \<open>
  One notification of the bus: the interface it is about, the new playback status when
  the changed properties hold one, whether they hold the metadata, and what the
  environment decides during each operation the handler may run: the operation of the
  status branch, the \<^verbatim>\<open>get_metadata\<close> of the metadata branch, the first operation of the
  metadata branch (start attempt or finalize) and the start after a finalize.
\<close>

record event =
  interface :: string
  changed_status :: "string option"
  changed_metadata :: bool
  env_status :: call_env
  metadata_reply :: raw_metadata
  env_metadata :: call_env
  env_restart :: call_env
  created :: "string list"

text \<open>
  \<^verbatim>\<open>
  def on_properties_changed(self, interface, changed, invalidated):
      if interface != "org.mpris.MediaPlayer2.Player":
          return
      if "PlaybackStatus" in changed:
          self.playback_status = str(changed["PlaybackStatus"])
          if self.playback_status in ("Paused", "Stopped"):
              self._finalize()
          elif self.playback_status == "Playing":
              self._ensure_started()
      if "Metadata" in changed:
          md = self.get_metadata()
          self.pending = md
          if self.playback_status != "Playing":
              return
          if not self.proc:
              self._ensure_started()
          elif md["trackid"] and md["trackid"] != self.current_track_id:
              self._finalize()
              self._start(md)
  \<close>
\<close>

definition status_branch :: "recorder \<Rightarrow> world \<Rightarrow> event \<Rightarrow> outcome" where
  "status_branch r w ev =
     (case changed_status ev of
        None \<Rightarrow> Inr (r, w)
      | Some s \<Rightarrow>
          (let r1 = r\<lparr>playback_status := Some s\<rparr>
           in if s = ''Paused'' \<or> s = ''Stopped'' then finalize r1 w (env_status ev)
              else if s = ''Playing'' then ensure_started r1 w (env_status ev)
              else Inr (r1, w)))"

definition metadata_branch :: "recorder \<Rightarrow> world \<Rightarrow> event \<Rightarrow> outcome" where
  "metadata_branch r w ev =
     (if changed_metadata ev then
        (case get_metadata (metadata_reply ev) of
           Inl err \<Rightarrow> Inl (err, r, w)
         | Inr md \<Rightarrow>
             (let r1 = r\<lparr>pending := Some md\<rparr>
              in if playback_status r1 \<noteq> Some ''Playing'' then Inr (r1, w)
                 else if proc r1 = None then ensure_started r1 w (env_metadata ev)
                 else if trackid md \<noteq> [] \<and> Some (trackid md) \<noteq> current_track_id r1 then
                   (case finalize r1 w (env_metadata ev) of
                      Inl x \<Rightarrow> Inl x
                    | Inr (r2, w2) \<Rightarrow> start r2 w2 (env_restart ev) md)
                 else Inr (r1, w)))
      else Inr (r, w))"

definition on_properties_changed :: "recorder \<Rightarrow> world \<Rightarrow> event \<Rightarrow> outcome" where
  "on_properties_changed r w ev =
     (if interface ev \<noteq> ''org.mpris.MediaPlayer2.Player'' then Inr (r, w)
      else case status_branch r w ev of
             Inl x \<Rightarrow> Inl x
           | Inr (r1, w1) \<Rightarrow> metadata_branch r1 w1 ev)"

text \<open>
  The constructor, up to the first status write, and \<^verbatim>\<open>prime\<close>:
  \<^verbatim>\<open>
  def prime(self):
      os.makedirs(self.out_dir, exist_ok=True)
      self.playback_status = self.get_playback_status()
      self.pending = self.get_metadata()
      if self.playback_status == "Playing":
          self._ensure_started()
  \<close>
\<close>

definition init :: "string \<Rightarrow> string \<Rightarrow> int \<Rightarrow> int \<Rightarrow> bool \<Rightarrow> world \<Rightarrow> bool \<Rightarrow> outcome" where
  "init dir src lvl min_secs dd w ok =
     (let r0 = \<lparr> out_dir = dir, source = src, comp_level = lvl, min_seconds = min_secs,
                 dedupe = dd, proc = None, current_path = None, current_started_at = None,
                 current_track_id = None, current_url = None, playback_status = None,
                 pending = None, seen_urls = {} \<rparr>;
          r1 = (if dd then load_index r0 w else r0)
      in case write_status ok [(''STATE'', SStr ''idle'')] w of
           Inl err \<Rightarrow> Inl (err, r1, w)
         | Inr w1 \<Rightarrow> Inr (r1, w1))"

definition prime :: "recorder \<Rightarrow> world \<Rightarrow> string \<Rightarrow> raw_metadata \<Rightarrow> call_env \<Rightarrow> outcome" where
  "prime r w st md_reply e =
     (let r1 = r\<lparr>playback_status := Some st\<rparr>
      in case get_metadata md_reply of
           Inl err \<Rightarrow> Inl (err, r1, w)
         | Inr md \<Rightarrow>
             (let r2 = r1\<lparr>pending := Some md\<rparr>
              in if st = ''Playing'' then ensure_started r2 w e else Inr (r2, w)))"

definition shutdown :: "recorder \<Rightarrow> world \<Rightarrow> call_env \<Rightarrow> outcome" where
  "shutdown r w e = finalize r w e"

text \<open>
  The bus delivers the notifications one at a time. Before each, the files that
  appeared on disk since the previous one (written by the encoder or by anyone else)
  are there. An exception that escapes the handler is logged by the bus binding, and
  the next notification finds the recorder as the handler left it. The result is the
  exceptions that escaped, in order, and the final recorder and world.
\<close>

fun run :: "recorder \<times> world \<Rightarrow> event list \<Rightarrow> error list \<times> recorder \<times> world" where
  "run s [] = ([], s)"
| "run s (ev # evs) =
     (case on_properties_changed (fst s) ((snd s)\<lparr>files := files (snd s) @ created ev\<rparr>) ev of
        Inl (err, s1) \<Rightarrow> (err # fst (run s1 evs), snd (run s1 evs))
      | Inr s1 \<Rightarrow> run s1 evs)"

text \<open>
  The state invariant: an output path and a start time are set exactly when a child
  process is supervised; a supervised process comes with a track id and a URL; and
  without a process a track id or a URL is set only as a skipped duplicate leaves them:
  deduplication is on, both are set, and the URL is non-empty and in the index.
\<close>

definition context_inv :: "recorder \<Rightarrow> bool" where
  "context_inv r =
     ((current_path r \<noteq> None \<longleftrightarrow> proc r \<noteq> None) \<and>
      (current_started_at r \<noteq> None \<longleftrightarrow> proc r \<noteq> None) \<and>
      (proc r \<noteq> None \<longrightarrow> current_track_id r \<noteq> None \<and> current_url r \<noteq> None) \<and>
      (proc r = None \<and> (current_track_id r \<noteq> None \<or> current_url r \<noteq> None) \<longrightarrow>
         dedupe r \<and> current_track_id r \<noteq> None \<and>
         (\<exists>u. current_url r = Some u \<and> u \<noteq> [] \<and> u \<in> seen_urls r)))"

text \<open>The exceptions of a failed deletion, which \<^verbatim>\<open>_finalize\<close> does not catch.\<close>

definition deletion_error :: "error \<Rightarrow> bool" where
  "deletion_error err = (err = PermissionError \<or> err = IsADirectoryError \<or> err = OSError)"

text \<open>An operation keeps the invariant unless a deletion error escapes it.\<close>

definition keeps_inv :: "outcome \<Rightarrow> bool" where
  "keeps_inv out =
     (case out of
        Inl (err, r', w') \<Rightarrow> deletion_error err \<or> context_inv r'
      | Inr (r', w') \<Rightarrow> context_inv r')"

text \<open>Whatever an operation does, the index does not shrink.\<close>

definition keeps_seen :: "recorder \<Rightarrow> outcome \<Rightarrow> bool" where
  "keeps_seen r out = (seen_urls r \<subseteq> seen_urls (fst (state_of out)))"

section \<open>Concrete configurations\<close>

text \<open>
  An idle recorder with the command-line defaults, an empty disk, a player that
  answers with a given track, and a notification whose operations all read the same
  clock and get the same answer.
\<close>

definition idle_recorder :: "bool \<Rightarrow> string set \<Rightarrow> recorder" where
  "idle_recorder dd seen =
     \<lparr> out_dir = ''/rec'', source = ''rec.monitor'', comp_level = 5, min_seconds = 30,
       dedupe = dd, proc = None, current_path = None, current_started_at = None,
       current_track_id = None, current_url = None, playback_status = None,
       pending = None, seen_urls = seen \<rparr>"

definition empty_world :: world where
  "empty_world = \<lparr> files = [], index_file = None, status_file = [], spawned = [], stopped = [] \<rparr>"

definition track :: "string \<Rightarrow> string \<Rightarrow> string \<Rightarrow> raw_metadata" where
  "track tid t u =
     \<lparr> mpris_trackid = Some (DString tid), xesam_artist = Some (DArray [DString ''Artist'']),
       xesam_title = Some (DString t), xesam_album = None, xesam_url = Some (DString u),
       xesam_trackNumber = None, xesam_discNumber = None \<rparr>"

definition track_md :: "string \<Rightarrow> string \<Rightarrow> string \<Rightarrow> metadata" where
  "track_md tid t u =
     \<lparr> trackid = tid, artist = ''Artist'', title = t, album = [], url = u,
       tracknumber = [], discnumber = [] \<rparr>"

definition env_at :: "real \<Rightarrow> raw_metadata \<Rightarrow> call_env" where
  "env_at t md = \<lparr> now = t, reply = md, exits_in_time = True, index_ok = True, status_ok = True,
                   remove_fails = None \<rparr>"

definition notify :: "string option \<Rightarrow> bool \<Rightarrow> raw_metadata \<Rightarrow> real \<Rightarrow> event" where
  "notify st ch md t =
     \<lparr> interface = ''org.mpris.MediaPlayer2.Player'', changed_status = st, changed_metadata = ch,
       env_status = env_at t md, metadata_reply = md, env_metadata = env_at t md,
       env_restart = env_at t md, created = [] \<rparr>"

definition recording :: "string \<Rightarrow> real \<Rightarrow> string \<Rightarrow> recorder \<Rightarrow> recorder" where
  "recording p t0 u r =
     r\<lparr> proc := Some [''ffmpeg'', p], current_path := Some p, current_started_at := Some t0,
        current_track_id := Some ''/t/1'', current_url := Some u,
        playback_status := Some ''Playing'' \<rparr>"

definition indexed_world :: world where
  "indexed_world = empty_world\<lparr>index_file := Some [''spotify:track:1'']\<rparr>"

text \<open>
  A notification during which deletions are refused and before which some files
  appeared; a recorder constructed over an index file with one URL and primed while
  the player is paused; two notifications, the first for the indexed track.
\<close>

definition refusing :: "event \<Rightarrow> string list \<Rightarrow> event" where
  "refusing ev fs =
     ev\<lparr> env_status := (env_status ev)\<lparr>remove_fails := Some PermissionDenied\<rparr>,
         env_metadata := (env_metadata ev)\<lparr>remove_fails := Some PermissionDenied\<rparr>,
         created := fs \<rparr>"

definition primed_state :: "recorder \<times> world" where
  "primed_state =
     ((idle_recorder True {''spotify:track:1''})
        \<lparr>playback_status := Some ''Paused'', pending := Some (track_md [] [] [])\<rparr>,
      indexed_world\<lparr>status_file := [(''STATE'', SStr ''idle'')]\<rparr>)"

definition two_tracks :: "event list" where
  "two_tracks =
     [notify (Some ''Playing'') True (track ''/t/1'' ''Song'' ''spotify:track:1'') 1000,
      notify None True (track ''/t/2'' ''Tune'' ''spotify:track:2'') 1200]"

text \<open>
  Property bags: one whose artist entry is a number, one with a textual track number
  and an unparsable disc number, one with a track number spoiled by a separator
  character and a disc number of zero, one with a track number of 4301 digits.
\<close>

definition numeric_artist_bag :: raw_metadata where
  "numeric_artist_bag =
     \<lparr> mpris_trackid = Some (DString ''/t/1''), xesam_artist = Some (DBasic (DInt 5)),
       xesam_title = Some (DString ''Song''), xesam_album = None, xesam_url = None,
       xesam_trackNumber = None, xesam_discNumber = None \<rparr>"

definition sample_bag :: raw_metadata where
  "sample_bag =
     \<lparr> mpris_trackid = None, xesam_artist = Some (DBasic (DString ''AC'')),
       xesam_title = None, xesam_album = Some (DString ''A''), xesam_url = None,
       xesam_trackNumber = Some (DString '' 1_2 ''),
       xesam_discNumber = Some (DString ''12a'') \<rparr>"

definition spoiled_bag :: raw_metadata where
  "spoiled_bag =
     \<lparr> mpris_trackid = None, xesam_artist = Some (DArray []),
       xesam_title = None, xesam_album = None, xesam_url = None,
       xesam_trackNumber = Some (DString (''12'' @ [CHR 0x1C])),
       xesam_discNumber = Some (DInt 0) \<rparr>"

definition long_bag :: raw_metadata where
  "long_bag =
     \<lparr> mpris_trackid = None, xesam_artist = None,
       xesam_title = None, xesam_album = None, xesam_url = None,
       xesam_trackNumber = Some (DString (replicate 4301 (CHR ''7''))),
       xesam_discNumber = None \<rparr>"

section \<open>Basic facts\<close>

lemmas model_defs = run.simps on_properties_changed_def status_branch_def metadata_branch_def
  ensure_started_def titled_def start_def finalize_def keep_or_drop_def os_remove_def
  append_index_def append_file_def write_status_def write_file_def swallow_def
  get_metadata_def get_text_def get_str_def to_int_str_def truthy_str_def ffmpeg_cmd_def
  unique_path_def sanitize_def strip_def strip_where_def is_space_def is_forbidden_def
  path_join_def py_trunc_def py_str_int_def digit_char_def init_def prime_def load_index_def
  idle_recorder_def empty_world_def track_def track_md_def env_at_def notify_def recording_def
  Let_def

lemma get_metadata_track: "get_metadata (track tid t u) = Inr (track_md tid t u)"
  by (simp add: get_metadata_def track_def track_md_def get_text_def to_int_str_def)

lemma write_status_eq: "write_status ok kvs w = Inr (if ok then w\<lparr>status_file := kvs\<rparr> else w)"
  by (simp add: write_status_def write_file_def swallow_def)

lemma append_index_eq:
  "append_index r w ok u =
     (if u = [] then Inr (r, w) else
     Inr (r\<lparr>seen_urls := insert u (seen_urls r)\<rparr>,
          if ok then w\<lparr>index_file := Some ((case index_file w of None \<Rightarrow> [] | Some ls \<Rightarrow> ls) @ [u])\<rparr> else w))"
  by (simp add: append_index_def append_file_def swallow_def)


lemma keep_or_drop_cases:
  "(\<exists>k d w'. keep_or_drop r w e = Inr (k, d, w') \<and> stopped w' = stopped w \<and> spawned w' = spawned w
      \<and> index_file w' = index_file w \<and> status_file w' = status_file w \<and> set (files w') \<subseteq> set (files w))
   \<or> (\<exists>err. keep_or_drop r w e = Inl err \<and> deletion_error err \<and> remove_fails e \<noteq> None)"
proof (cases "remove_fails e")
  case None
  then show ?thesis
    by (auto simp: keep_or_drop_def os_remove_def Let_def split: option.splits)
next
  case (Some f)
  then show ?thesis
    by (cases f) (auto simp: keep_or_drop_def os_remove_def Let_def deletion_error_def split: option.splits)
qed

lemma keep_or_drop_total:
  "remove_fails e = None \<Longrightarrow>
   \<exists>k d w'. keep_or_drop r w e = Inr (k, d, w') \<and> stopped w' = stopped w \<and> spawned w' = spawned w
      \<and> index_file w' = index_file w \<and> status_file w' = status_file w \<and> set (files w') \<subseteq> set (files w)"
  using keep_or_drop_cases [of r w e] by auto

lemma finalize_idle: "proc r = None \<Longrightarrow> finalize r w e = Inr (r, w)"
  by (simp add: finalize_def)

lemma get_metadata_error: "get_metadata md = Inl err \<Longrightarrow> err = TypeError"
proof -
  assume a: "get_metadata md = Inl err"
  have fi: "\<And>v e. first_item v = Inl e \<Longrightarrow> e = TypeError"
  proof -
    fix v e show "first_item v = Inl e \<Longrightarrow> e = TypeError"
      by (induction v rule: first_item.induct) simp_all
  qed
  show ?thesis
    using a fi by (auto simp: get_metadata_def split: option.splits if_splits sum.splits)
qed

lemma finalize_active:
  assumes "proc r = Some c"
  shows "finalize r w e =
     (case keep_or_drop (r\<lparr>proc := None\<rparr>)
            (w\<lparr>stopped := stopped w @ [if exits_in_time e then Interrupted else Killed]\<rparr>) e of
        Inl err \<Rightarrow> Inl (err, r\<lparr>proc := None\<rparr>,
                     w\<lparr>stopped := stopped w @ [if exits_in_time e then Interrupted else Killed]\<rparr>)
      | Inr (kept, dur, w2) \<Rightarrow>
          Inr ((if kept \<and> dedupe r \<and> truthy_str (current_url r)
                then r\<lparr>proc := None, seen_urls := insert (get_str (current_url r)) (seen_urls r)\<rparr>
                else r\<lparr>proc := None\<rparr>)
                 \<lparr>current_path := None, current_started_at := None,
                  current_track_id := None, current_url := None\<rparr>,
               (let w3 = (if kept \<and> dedupe r \<and> truthy_str (current_url r) \<and> index_ok e
                          then w2\<lparr>index_file := Some ((case index_file w2 of None \<Rightarrow> [] | Some ls \<Rightarrow> ls)
                                    @ [get_str (current_url r)])\<rparr>
                          else w2)
                in if status_ok e
                   then w3\<lparr>status_file :=
                          [(''STATE'', SStr ''idle''),
                           (''LAST_RESULT'', SStr (if kept then ''KEEP'' else ''DROP'')),
                           (''LAST_DURATION'', SSeconds dur),
                           (''LAST_FILE'', SStr (get_str (current_path r))),
                           (''LAST_SPOTIFY_URL'', SStr (get_str (current_url r)))]\<rparr>
                   else w3)))"
proof (cases "keep_or_drop (r\<lparr>proc := None\<rparr>)
            (w\<lparr>stopped := stopped w @ [if exits_in_time e then Interrupted else Killed]\<rparr>) e")
  case (Inl err)
  then show ?thesis using assms by (simp add: finalize_def Let_def)
next
  case (Inr x)
  obtain kept dur w2 where x: "x = (kept, dur, w2)" by (cases x) auto
  have u: "truthy_str (current_url r) \<Longrightarrow> get_str (current_url r) \<noteq> []"
    by (simp add: truthy_str_def get_str_def split: option.splits)
  show ?thesis
    using assms Inr x u
    by (simp add: finalize_def Let_def write_status_eq append_index_eq)
qed

lemma finalize_raises:
  assumes "finalize r w e = Inl (err, r', w')"
  shows "deletion_error err" and "remove_fails e \<noteq> None" and "proc r \<noteq> None"
    and "r' = r\<lparr>proc := None\<rparr>"
    and "w' = w\<lparr>stopped := stopped w @ [if exits_in_time e then Interrupted else Killed]\<rparr>"
proof -
  obtain c where c: "proc r = Some c" using assms by (cases "proc r") (auto simp: finalize_idle)
  let ?r1 = "r\<lparr>proc := None\<rparr>"
  let ?w1 = "w\<lparr>stopped := stopped w @ [if exits_in_time e then Interrupted else Killed]\<rparr>"
  have k: "keep_or_drop ?r1 ?w1 e = Inl err \<and> r' = ?r1 \<and> w' = ?w1"
    using assms unfolding finalize_active [OF c] by (auto split: sum.splits)
  then have "deletion_error err \<and> remove_fails e \<noteq> None"
    using keep_or_drop_cases [of ?r1 ?w1 e] by auto
  then show "deletion_error err" and "remove_fails e \<noteq> None" and "proc r \<noteq> None"
    and "r' = r\<lparr>proc := None\<rparr>"
    and "w' = w\<lparr>stopped := stopped w @ [if exits_in_time e then Interrupted else Killed]\<rparr>"
    using k c by auto
qed

lemma finalize_returns:
  assumes "finalize r w e = Inr (r', w')"
  shows "proc r' = None \<and> dedupe r' = dedupe r \<and> seen_urls r \<subseteq> seen_urls r' \<and>
       playback_status r' = playback_status r \<and> pending r' = pending r \<and> spawned w' = spawned w \<and>
       (proc r \<noteq> None \<longrightarrow> current_path r' = None \<and> current_started_at r' = None \<and>
           current_track_id r' = None \<and> current_url r' = None)"
proof (cases "proc r")
  case None
  then show ?thesis using assms by (simp add: finalize_idle)
next
  case (Some c)
  let ?r1 = "r\<lparr>proc := None\<rparr>"
  let ?w1 = "w\<lparr>stopped := stopped w @ [if exits_in_time e then Interrupted else Killed]\<rparr>"
  obtain k d w2 where kd: "keep_or_drop ?r1 ?w1 e = Inr (k, d, w2)" and sp: "spawned w2 = spawned ?w1"
    using keep_or_drop_cases [of ?r1 ?w1 e] assms unfolding finalize_active [OF Some]
    by (auto split: sum.splits)
  show ?thesis
    using assms sp unfolding finalize_active [OF Some] kd
    by (auto simp: Let_def split: if_splits)
qed

lemma finalize_total: "remove_fails e = None \<Longrightarrow> \<exists>r' w'. finalize r w e = Inr (r', w')"
proof (cases "proc r")
  case None
  then show ?thesis by (simp add: finalize_idle)
next
  case (Some c)
  assume "remove_fails e = None"
  then obtain k d w2 where "keep_or_drop (r\<lparr>proc := None\<rparr>)
      (w\<lparr>stopped := stopped w @ [if exits_in_time e then Interrupted else Killed]\<rparr>) e = Inr (k, d, w2)"
    using keep_or_drop_total by blast
  then show ?thesis unfolding finalize_active [OF Some] by simp
qed

lemma start_total: "\<exists>r' w'. start r w e md = Inr (r', w')"
  by (simp add: start_def Let_def write_status_eq)

lemma start_effect:
  assumes "start r w e md = Inr (r', w')"
  shows "dedupe r' = dedupe r \<and> seen_urls r' = seen_urls r \<and>
         playback_status r' = playback_status r \<and> pending r' = pending r"
  using assms by (auto simp: start_def Let_def write_status_eq split: if_splits)

lemma start_inv:
  assumes "context_inv r"
  shows "keeps_inv (start r w e md)"
  using assms
  by (auto simp: keeps_inv_def start_def Let_def write_status_eq context_inv_def)

lemma finalize_inv:
  assumes "context_inv r"
  shows "keeps_inv (finalize r w e)"
proof (cases "finalize r w e")
  case (Inl x)
  obtain err r' w' where x: "x = (err, r', w')" by (cases x) auto
  then have "deletion_error err" using Inl finalize_raises(1) by blast
  then show ?thesis using Inl x by (simp add: keeps_inv_def)
next
  case (Inr x)
  obtain r' w' where x: "x = (r', w')" by (cases x) auto
  show ?thesis
  proof (cases "proc r")
    case None
    then show ?thesis using assms by (simp add: finalize_idle keeps_inv_def)
  next
    case (Some c)
    then show ?thesis
      using finalize_returns [of r w e r' w'] Inr x
      by (simp add: keeps_inv_def context_inv_def)
  qed
qed

lemma context_inv_pending [simp]: "context_inv (r\<lparr>pending := x\<rparr>) = context_inv r"
  by (simp add: context_inv_def)

lemma context_inv_status [simp]: "context_inv (r\<lparr>playback_status := x\<rparr>) = context_inv r"
  by (simp add: context_inv_def)

lemma ensure_started_inv:
  assumes "context_inv r"
  shows "keeps_inv (ensure_started r w e)"
proof -
  have s: "\<And>r1 md. context_inv r1 \<Longrightarrow> keeps_inv (start r1 w e md)" by (rule start_inv)
  show ?thesis
    using assms s
    by (auto simp: ensure_started_def Let_def keeps_inv_def [of "Inr _"] keeps_inv_def [of "Inl _"]
             split: option.splits sum.splits)
qed

lemma status_branch_inv:
  assumes "context_inv r"
  shows "keeps_inv (status_branch r w ev)"
proof (cases "changed_status ev")
  case None
  then show ?thesis using assms by (simp add: status_branch_def keeps_inv_def)
next
  case (Some s)
  let ?r1 = "r\<lparr>playback_status := Some s\<rparr>"
  have i1: "context_inv ?r1" using assms by simp
  consider (fin) "s = ''Paused'' \<or> s = ''Stopped''" | (play) "\<not> (s = ''Paused'' \<or> s = ''Stopped'')" "s = ''Playing''"
    | (other) "\<not> (s = ''Paused'' \<or> s = ''Stopped'')" "s \<noteq> ''Playing''" by blast
  then show ?thesis
  proof cases
    case fin
    then have "status_branch r w ev = finalize ?r1 w (env_status ev)"
      using Some by (simp add: status_branch_def Let_def)
    then show ?thesis using finalize_inv [OF i1] by simp
  next
    case play
    then have "status_branch r w ev = ensure_started ?r1 w (env_status ev)"
      using Some by (simp add: status_branch_def Let_def)
    then show ?thesis using ensure_started_inv [OF i1] by simp
  next
    case other
    then have "status_branch r w ev = Inr (?r1, w)"
      using Some by (simp add: status_branch_def Let_def)
    then show ?thesis using i1 by (simp add: keeps_inv_def)
  qed
qed

lemma metadata_branch_inv:
  assumes "context_inv r"
  shows "keeps_inv (metadata_branch r w ev)"
proof (cases "changed_metadata ev")
  case False
  then show ?thesis using assms by (simp add: metadata_branch_def keeps_inv_def)
next
  case True
  show ?thesis
  proof (cases "get_metadata (metadata_reply ev)")
    case (Inl err)
    then show ?thesis using True assms by (simp add: metadata_branch_def keeps_inv_def)
  next
    case (Inr md)
    let ?r1 = "r\<lparr>pending := Some md\<rparr>"
    have i1: "context_inv ?r1" using assms by simp
    have 1: "keeps_inv (ensure_started ?r1 w (env_metadata ev))" using i1 by (rule ensure_started_inv)
    have 2: "keeps_inv (Inr (?r1, w))" using i1 by (simp add: keeps_inv_def)
    have 3: "keeps_inv (case finalize ?r1 w (env_metadata ev) of Inl x \<Rightarrow> Inl x
                         | Inr (r2, w2) \<Rightarrow> start r2 w2 (env_restart ev) md)"
    proof (cases "finalize ?r1 w (env_metadata ev)")
      case (Inl x)
      then show ?thesis using finalize_inv [OF i1, of w "env_metadata ev"] by simp
    next
      case (Inr x)
      obtain r2 w2 where x: "x = (r2, w2)" by (cases x) auto
      have "context_inv r2" using finalize_inv [OF i1, of w "env_metadata ev"] Inr x
        by (simp add: keeps_inv_def)
      then have "keeps_inv (start r2 w2 (env_restart ev) md)" by (rule start_inv)
      then show ?thesis using Inr x by simp
    qed
    show ?thesis using True Inr 1 2 3 by (simp add: metadata_branch_def Let_def)
  qed
qed

lemma on_properties_changed_inv:
  assumes "context_inv r"
  shows "keeps_inv (on_properties_changed r w ev)"
proof (cases "interface ev \<noteq> ''org.mpris.MediaPlayer2.Player''")
  case True
  then show ?thesis using assms by (simp add: on_properties_changed_def keeps_inv_def)
next
  case False
  show ?thesis
  proof (cases "status_branch r w ev")
    case (Inl x)
    then show ?thesis using False status_branch_inv [OF assms, of w ev]
      by (simp add: on_properties_changed_def)
  next
    case (Inr x)
    obtain r1 w1 where x: "x = (r1, w1)" by (cases x) auto
    have "context_inv r1" using status_branch_inv [OF assms, of w ev] Inr x by (simp add: keeps_inv_def)
    then have "keeps_inv (metadata_branch r1 w1 ev)" by (rule metadata_branch_inv)
    then show ?thesis using False Inr x by (simp add: on_properties_changed_def)
  qed
qed

lemma run_inv:
  "context_inv (fst s) \<Longrightarrow> \<forall>err\<in>set (fst (run s evs)). \<not> deletion_error err \<Longrightarrow>
   context_inv (fst (snd (run s evs)))"
proof (induction evs arbitrary: s)
  case Nil
  then show ?case by simp
next
  case (Cons ev evs)
  let ?out = "on_properties_changed (fst s) ((snd s)\<lparr>files := files (snd s) @ created ev\<rparr>) ev"
  have k: "keeps_inv ?out" using Cons.prems(1) by (rule on_properties_changed_inv)
  show ?case
  proof (cases ?out)
    case (Inl x)
    obtain err s1 where x: "x = (err, s1)" by (cases x) auto
    have r: "run s (ev # evs) = (err # fst (run s1 evs), snd (run s1 evs))" using Inl x by simp
    then have nd: "\<not> deletion_error err" and rest: "\<forall>e\<in>set (fst (run s1 evs)). \<not> deletion_error e"
      using Cons.prems(2) by simp_all
    have "context_inv (fst s1)" using k Inl x nd by (cases s1) (simp add: keeps_inv_def)
    then have "context_inv (fst (snd (run s1 evs)))" using rest by (rule Cons.IH)
    then show ?thesis using r by simp
  next
    case (Inr s1)
    have r: "run s (ev # evs) = run s1 evs" using Inr by simp
    have "context_inv (fst s1)" using k Inr by (cases s1) (simp add: keeps_inv_def)
    then have "context_inv (fst (snd (run s1 evs)))" using Cons.prems(2) r by (intro Cons.IH) simp_all
    then show ?thesis using r by simp
  qed
qed


section \<open>Uniqueness of output paths\<close>

lemma unique_loop_fresh: "unique_loop d fs b i \<notin> set fs"
proof (induction d fs b i rule: unique_loop.induct)
  case (1 dir fs base i)
  then show ?case by (simp add: unique_loop.simps [of dir fs base i])
qed

lemma unique_loop_counter:
  "\<exists>j\<ge>i. unique_loop d fs b i = numbered d b j \<and> (\<forall>k. i \<le> k \<and> k < j \<longrightarrow> numbered d b k \<in> set fs)"
proof (induction d fs b i rule: unique_loop.induct)
  case (1 dir fs base i)
  show ?case
  proof (cases "numbered dir base i \<in> set fs")
    case False
    then have "unique_loop dir fs base i = numbered dir base i"
      by (simp add: unique_loop.simps [of dir fs base i])
    then show ?thesis by auto
  next
    case True
    then obtain j where j: "i + 1 \<le> j" "unique_loop dir fs base (i + 1) = numbered dir base j"
        "\<forall>k. i + 1 \<le> k \<and> k < j \<longrightarrow> numbered dir base k \<in> set fs"
      using 1 by auto
    have "unique_loop dir fs base i = numbered dir base j"
      using True j(2) by (simp add: unique_loop.simps [of dir fs base i])
    moreover have "\<forall>k. i \<le> k \<and> k < j \<longrightarrow> numbered dir base k \<in> set fs"
    proof (intro allI impI)
      fix k assume "i \<le> k \<and> k < j"
      then have "k = i \<or> (i + 1 \<le> k \<and> k < j)" by auto
      then show "numbered dir base k \<in> set fs" using True j(3) by auto
    qed
    moreover have "i \<le> j" using j(1) by simp
    ultimately show ?thesis by blast
  qed
qed

lemma unique_path_fresh_aux: "unique_path d fs b \<notin> set fs"
  by (simp add: unique_path_def Let_def unique_loop_fresh)

lemma request_paths_fresh:
  "length (request_paths n d fs b) = n \<and> distinct (request_paths n d fs b) \<and>
   set (request_paths n d fs b) \<inter> set fs = {}"
proof (induction n arbitrary: fs)
  case 0
  then show ?case by simp
next
  case (Suc n)
  let ?p = "unique_path d fs b"
  have p: "?p \<notin> set fs" by (rule unique_path_fresh_aux)
  have ih: "length (request_paths n d (?p # fs) b) = n \<and> distinct (request_paths n d (?p # fs) b) \<and>
      set (request_paths n d (?p # fs) b) \<inter> set (?p # fs) = {}" by (rule Suc.IH)
  then have "?p \<notin> set (request_paths n d (?p # fs) b)" by auto
  moreover have "set (request_paths n d (?p # fs) b) \<inter> set fs = {}" using ih by auto
  ultimately show ?case using ih p by (simp add: Let_def)
qed

text \<open>
  C6. For every finite disk, directory and base name, \<open>unique_path\<close> returns a path that
  is not on the disk. It is the plain path \<open>base.flac\<close> when that is free; otherwise it is
  \<open>base (j).flac\<close> for the least counter \<open>j\<close> from 2 on whose path is free. Asking \<open>n\<close> times
  for the same base name, each returned path existing from then on, gives \<open>n\<close> pairwise
  distinct paths, none of which was on the disk.
\<close>

theorem unique_path_fresh:
  "unique_path d fs b \<notin> set fs \<and>
   (unique_path d fs b = path_join d (sanitize b @ ''.flac'') \<or>
    path_join d (sanitize b @ ''.flac'') \<in> set fs \<and>
    (\<exists>j\<ge>2. unique_path d fs b = path_join d (sanitize b @ '' ('' @ str_nat j @ '').flac'') \<and>
       (\<forall>k. 2 \<le> k \<and> k < j \<longrightarrow> path_join d (sanitize b @ '' ('' @ str_nat k @ '').flac'') \<in> set fs))) \<and>
   length (request_paths n d fs b) = n \<and> distinct (request_paths n d fs b) \<and>
   set (request_paths n d fs b) \<inter> set fs = {}"
proof -
  have "unique_path d fs b = path_join d (sanitize b @ ''.flac'') \<or>
    path_join d (sanitize b @ ''.flac'') \<in> set fs \<and>
    (\<exists>j\<ge>2. unique_path d fs b = path_join d (sanitize b @ '' ('' @ str_nat j @ '').flac'') \<and>
       (\<forall>k. 2 \<le> k \<and> k < j \<longrightarrow> path_join d (sanitize b @ '' ('' @ str_nat k @ '').flac'') \<in> set fs))"
  proof (cases "path_join d (sanitize b @ ''.flac'') \<in> set fs")
    case False
    then show ?thesis by (simp add: unique_path_def Let_def)
  next
    case True
    then have "unique_path d fs b = unique_loop d fs (sanitize b) 2"
      by (simp add: unique_path_def Let_def)
    then show ?thesis
      using True unique_loop_counter [of 2 d fs "sanitize b"] by (simp add: numbered_def)
  qed
  then show ?thesis using unique_path_fresh_aux request_paths_fresh by blast
qed

theorem unique_path_fresh_witness:
  "unique_path ''/rec'' [''/rec/Artist - Song.flac'', ''/rec/Artist - Song (2).flac''] ''Artist - Song''
     = ''/rec/Artist - Song (3).flac'' \<and>
   ''/rec/Artist - Song (3).flac'' \<notin> set [''/rec/Artist - Song.flac'', ''/rec/Artist - Song (2).flac''] \<and>
   request_paths 3 ''/rec'' [''/rec/Artist - Song.flac'', ''/rec/Artist - Song (2).flac''] ''Artist - Song''
     = [''/rec/Artist - Song (3).flac'', ''/rec/Artist - Song (4).flac'', ''/rec/Artist - Song (5).flac''] \<and>
   distinct [''/rec/Artist - Song (3).flac'', ''/rec/Artist - Song (4).flac'', ''/rec/Artist - Song (5).flac'']"
proof -
  let ?fs = "[''/rec/Artist - Song.flac'', ''/rec/Artist - Song (2).flac'']"
  have s: "sanitize ''Artist - Song'' = ''Artist - Song''"
    by (simp add: sanitize_def strip_def strip_where_def is_space_def is_forbidden_def)
  have n: "\<And>fs. unique_path ''/rec'' fs ''Artist - Song'' =
      (if ''/rec/Artist - Song.flac'' \<notin> set fs then ''/rec/Artist - Song.flac''
       else unique_loop ''/rec'' fs ''Artist - Song'' 2)"
    by (simp add: unique_path_def s path_join_def)
  have c: "numbered ''/rec'' ''Artist - Song'' 2 = ''/rec/Artist - Song (2).flac''"
      "numbered ''/rec'' ''Artist - Song'' 3 = ''/rec/Artist - Song (3).flac''"
      "numbered ''/rec'' ''Artist - Song'' 4 = ''/rec/Artist - Song (4).flac''"
      "numbered ''/rec'' ''Artist - Song'' 5 = ''/rec/Artist - Song (5).flac''"
    by (simp_all add: numbered_def path_join_def str_nat.simps digit_char_def)
  have v: "unique_path ''/rec'' ?fs ''Artist - Song'' = ''/rec/Artist - Song (3).flac''"
    by (simp add: n unique_loop.simps [of _ _ _ 2] unique_loop.simps [of _ _ _ 3] c)
  have v2: "unique_path ''/rec'' (''/rec/Artist - Song (3).flac'' # ?fs) ''Artist - Song'' = ''/rec/Artist - Song (4).flac''"
    by (simp add: n unique_loop.simps [of _ _ _ 2] unique_loop.simps [of _ _ _ 3] unique_loop.simps [of _ _ _ 4] c)
  have v3: "unique_path ''/rec'' (''/rec/Artist - Song (4).flac'' # ''/rec/Artist - Song (3).flac'' # ?fs) ''Artist - Song'' = ''/rec/Artist - Song (5).flac''"
    by (simp add: n unique_loop.simps [of _ _ _ 2] unique_loop.simps [of _ _ _ 3] unique_loop.simps [of _ _ _ 4]
          unique_loop.simps [of _ _ _ 5] c)
  have rp: "request_paths 3 ''/rec'' ?fs ''Artist - Song''
     = [''/rec/Artist - Song (3).flac'', ''/rec/Artist - Song (4).flac'', ''/rec/Artist - Song (5).flac'']"
    by (simp add: numeral_3_eq_3 v v2 v3)
  show ?thesis
    using unique_path_fresh [of "''/rec''" ?fs "''Artist - Song''" 3]
    unfolding v rp by blast
qed


section \<open>Persistence failures\<close>

text \<open>
  C8, as stated, at the empty URL: recording the empty URL into the dedupe index returns
  without touching the in-memory set, so the URL is not added.
\<close>

theorem append_index_empty_url:
  "append_index (idle_recorder True {}) empty_world True [] = Inr (idle_recorder True {}, empty_world) \<and>
   [] \<notin> seen_urls (idle_recorder True {})"
  by (simp add: append_index_def idle_recorder_def)

text \<open>
  C8, amended. For every non-empty URL, recording it into the dedupe index returns
  normally with the URL added to the in-memory set, whether the append to the index
  file succeeds or fails (a failed append raises inside and leaves the world as it was);
  every status write returns normally whether the file write succeeds or fails.
\<close>

theorem persistence_failures_swallowed:
  assumes "u \<noteq> []"
  shows "(\<exists>r' w'. append_index r w ok u = Inr (r', w') \<and> u \<in> seen_urls r' \<and>
            seen_urls r' = insert u (seen_urls r) \<and> (\<not> ok \<longrightarrow> w' = w)) \<and>
         (\<not> ok \<longrightarrow> append_file ok u w = Inl OSError) \<and>
         (\<exists>w'. write_status ok2 kvs w = Inr w' \<and> (\<not> ok2 \<longrightarrow> w' = w)) \<and>
         (\<not> ok2 \<longrightarrow> write_file ok2 kvs w = Inl OSError)"
  using assms by (simp add: append_index_eq write_status_eq append_file_def write_file_def)

theorem persistence_failures_swallowed_witness:
  "(\<exists>r' w'. append_index (idle_recorder True {}) empty_world False ''u'' = Inr (r', w') \<and>
       seen_urls r' = {''u''} \<and> w' = empty_world) \<and>
   append_file False ''u'' empty_world = Inl OSError \<and>
   write_status False [(''STATE'', SStr ''idle'')] empty_world = Inr empty_world \<and>
   write_file False [(''STATE'', SStr ''idle'')] empty_world = Inl OSError"
  using persistence_failures_swallowed [of "''u''" "idle_recorder True {}" empty_world False False
          "[(''STATE'', SStr ''idle'')]"]
  by (auto simp: idle_recorder_def)

section \<open>Minimum duration\<close>





section \<open>Idempotence of finalize\<close>

lemma finalize_clears_proc: "proc (fst (state_of (finalize r w e))) = None"
proof (cases "finalize r w e")
  case (Inl x)
  obtain err r' w' where x: "x = (err, r', w')" by (cases x) auto
  then have "r' = r\<lparr>proc := None\<rparr>" using Inl finalize_raises(4) by blast
  then show ?thesis using Inl x by (simp add: state_of_def)
next
  case (Inr x)
  obtain r' w' where x: "x = (r', w')" by (cases x) auto
  then have "proc r' = None" using Inr finalize_returns by blast
  then show ?thesis using Inr x by (simp add: state_of_def)
qed

text \<open>
  C5. Finalizing while no child process is supervised changes neither the recorder nor
  the world (disk, index file, status file, processes). However a finalize ends,
  finalizing again right afterwards changes nothing more; in particular when the
  first one returns, which it does whenever the deletion does not fail.
\<close>

theorem finalize_idempotent:
  "(proc r = None \<longrightarrow> finalize r w e = Inr (r, w)) \<and>
   (\<exists>r' w'. state_of (finalize r w e) = (r', w') \<and> finalize r' w' e2 = Inr (r', w')) \<and>
   (remove_fails e = None \<longrightarrow>
      (\<exists>r' w'. finalize r w e = Inr (r', w') \<and> finalize r' w' e2 = Inr (r', w')))"
proof (intro conjI impI)
  assume "proc r = None"
  then show "finalize r w e = Inr (r, w)" by (rule finalize_idle)
next
  obtain r' w' where s: "state_of (finalize r w e) = (r', w')" by (cases "state_of (finalize r w e)") auto
  then have "proc r' = None" using finalize_clears_proc [of r w e] by simp
  then have "finalize r' w' e2 = Inr (r', w')" by (rule finalize_idle)
  with s show "\<exists>r' w'. state_of (finalize r w e) = (r', w') \<and> finalize r' w' e2 = Inr (r', w')" by blast
next
  assume "remove_fails e = None"
  then obtain r' w' where f: "finalize r w e = Inr (r', w')" using finalize_total by blast
  then have "proc r' = None" using finalize_returns by blast
  then have "finalize r' w' e2 = Inr (r', w')" by (rule finalize_idle)
  with f show "\<exists>r' w'. finalize r w e = Inr (r', w') \<and> finalize r' w' e2 = Inr (r', w')" by blast
qed

theorem finalize_idempotent_witness:
  "finalize (idle_recorder True {}) empty_world (env_at 5 (track [] [] [])) = Inr (idle_recorder True {}, empty_world) \<and>
   (\<exists>r' w'. finalize (recording ''/rec/a.flac'' 1000 ''u'' (idle_recorder True {}))
              (empty_world\<lparr>files := [''/rec/a.flac'']\<rparr>) (env_at 1010 (track [] [] [])) = Inr (r', w') \<and>
            finalize r' w' (env_at 1011 (track [] [] [])) = Inr (r', w') \<and>
            files w' = [] \<and> index_file w' = None \<and> stopped w' = [Interrupted])"
proof -
  have idle: "proc (idle_recorder True {}) = None" by (simp add: idle_recorder_def)
  have 1: "finalize (idle_recorder True {}) empty_world (env_at 5 (track [] [] [])) = Inr (idle_recorder True {}, empty_world)"
    using finalize_idempotent [of "idle_recorder True {}" empty_world "env_at 5 (track [] [] [])"] idle by blast
  have nf: "remove_fails (env_at 1010 (track [] [] [])) = None" by (simp add: env_at_def)
  obtain r' w' where 2: "finalize (recording ''/rec/a.flac'' 1000 ''u'' (idle_recorder True {}))
              (empty_world\<lparr>files := [''/rec/a.flac'']\<rparr>) (env_at 1010 (track [] [] [])) = Inr (r', w')"
     and 3: "finalize r' w' (env_at 1011 (track [] [] [])) = Inr (r', w')"
    using nf finalize_idempotent [of "recording ''/rec/a.flac'' 1000 ''u'' (idle_recorder True {})"
        "empty_world\<lparr>files := [''/rec/a.flac'']\<rparr>" "env_at 1010 (track [] [] [])" "env_at 1011 (track [] [] [])"]
    by blast
  have "files w' = [] \<and> index_file w' = None \<and> stopped w' = [Interrupted]"
    using 2 by (auto simp: model_defs)
  with 1 2 3 show ?thesis by blast
qed

section \<open>Finalizing when the output file is missing\<close>



section \<open>Tracks without a URL\<close>

lemma finalize_keeps_index:
  assumes "get_str (current_url r) = []"
  shows "\<exists>r' w'. state_of (finalize r w e) = (r', w') \<and> seen_urls r' = seen_urls r \<and>
           index_file w' = index_file w"
proof (cases "proc r")
  case None
  then show ?thesis by (simp add: finalize_idle state_of_def)
next
  case (Some c)
  let ?r1 = "r\<lparr>proc := None\<rparr>"
  let ?w1 = "w\<lparr>stopped := stopped w @ [if exits_in_time e then Interrupted else Killed]\<rparr>"
  have nt: "\<not> truthy_str (current_url r)"
    using assms by (simp add: truthy_str_def get_str_def split: option.splits)
  show ?thesis
  proof (cases "keep_or_drop ?r1 ?w1 e")
    case (Inl err)
    then show ?thesis unfolding finalize_active [OF Some] by (simp add: state_of_def)
  next
    case (Inr x)
    obtain k d w2 where x: "x = (k, d, w2)" by (cases x) auto
    have "index_file w2 = index_file ?w1" using keep_or_drop_cases [of ?r1 ?w1 e] Inr x by auto
    then show ?thesis using Inr x nt unfolding finalize_active [OF Some]
      by (simp add: state_of_def Let_def)
  qed
qed

text \<open>
  C9. A start attempt for a track whose URL is empty is never skipped: it spawns a child
  process, whatever the dedupe setting and index. Finalizing a recording whose URL is
  empty (or unset) leaves the in-memory index and the index file unchanged, kept or
  not, however the finalize ends. So with a title and an empty URL, every attempt made
  while playing with no process records again.
\<close>

theorem empty_url_bypasses_dedupe:
  "(url md = [] \<longrightarrow>
      (\<exists>r' w' cmd. start r w e md = Inr (r', w') \<and> proc r' = Some cmd \<and>
          spawned w' = spawned w @ [cmd])) \<and>
   (get_str (current_url r) = [] \<longrightarrow>
      (\<exists>r' w'. state_of (finalize r w e) = (r', w') \<and> seen_urls r' = seen_urls r \<and>
          index_file w' = index_file w) \<and>
      (remove_fails e = None \<longrightarrow>
         (\<exists>r' w'. finalize r w e = Inr (r', w') \<and> seen_urls r' = seen_urls r \<and>
             index_file w' = index_file w))) \<and>
   (playback_status r = Some ''Playing'' \<and> proc r = None \<and> pending r = Some md \<and>
    title md \<noteq> [] \<and> url md = [] \<longrightarrow>
      (\<exists>r' w' cmd. ensure_started r w e = Inr (r', w') \<and> proc r' = Some cmd \<and>
          spawned w' = spawned w @ [cmd]))"
proof (intro conjI impI)
  assume "url md = []"
  then show "\<exists>r' w' cmd. start r w e md = Inr (r', w') \<and> proc r' = Some cmd \<and> spawned w' = spawned w @ [cmd]"
    by (simp add: start_def Let_def write_status_eq)
next
  assume "get_str (current_url r) = []"
  then show "\<exists>r' w'. state_of (finalize r w e) = (r', w') \<and> seen_urls r' = seen_urls r \<and> index_file w' = index_file w"
    by (rule finalize_keeps_index)
next
  assume u: "get_str (current_url r) = []" and nf: "remove_fails e = None"
  obtain r' w' where f: "finalize r w e = Inr (r', w')" using nf finalize_total by blast
  then have "state_of (finalize r w e) = (r', w')" by (simp add: state_of_def)
  then show "\<exists>r' w'. finalize r w e = Inr (r', w') \<and> seen_urls r' = seen_urls r \<and> index_file w' = index_file w"
    using finalize_keeps_index [OF u, of w e] f by auto
next
  assume a: "playback_status r = Some ''Playing'' \<and> proc r = None \<and> pending r = Some md \<and> title md \<noteq> [] \<and> url md = []"
  then show "\<exists>r' w' cmd. ensure_started r w e = Inr (r', w') \<and> proc r' = Some cmd \<and> spawned w' = spawned w @ [cmd]"
    by (simp add: ensure_started_def titled_def start_def Let_def write_status_eq)
qed

theorem empty_url_bypasses_dedupe_witness:
  "(\<exists>r' w' cmd. start (idle_recorder True {''u''}) empty_world (env_at 1000 (track ''/t/1'' ''Song'' []))
        (track_md ''/t/1'' ''Song'' []) = Inr (r', w') \<and>
        proc r' = Some cmd \<and> spawned w' = [cmd]) \<and>
   (\<exists>r' w'. finalize (recording ''/rec/a.flac'' 1000 [] (idle_recorder True {''u''}))
        (empty_world\<lparr>files := [''/rec/a.flac'']\<rparr>) (env_at 1100 (track [] [] [])) = Inr (r', w') \<and>
        seen_urls r' = {''u''} \<and> index_file w' = None)"
proof -
  let ?md = "track_md ''/t/1'' ''Song'' []"
  let ?rec = "recording ''/rec/a.flac'' 1000 [] (idle_recorder True {''u''})"
  have 1: "url ?md = []" by (simp add: track_md_def)
  have 2: "spawned empty_world = []" by (simp add: empty_world_def)
  have a: "\<exists>r' w' cmd. start (idle_recorder True {''u''}) empty_world (env_at 1000 (track ''/t/1'' ''Song'' []))
        ?md = Inr (r', w') \<and> proc r' = Some cmd \<and> spawned w' = [cmd]"
    using 1 empty_url_bypasses_dedupe [of ?md "idle_recorder True {''u''}"
        empty_world "env_at 1000 (track ''/t/1'' ''Song'' [])"]
    unfolding 2 by simp
  have 3: "get_str (current_url ?rec) = []"
    by (simp add: recording_def get_str_def)
  have 4: "seen_urls ?rec = {''u''}" by (simp add: recording_def idle_recorder_def)
  have 5: "index_file (empty_world\<lparr>files := [''/rec/a.flac'']\<rparr>) = None" by (simp add: empty_world_def)
  have 6: "remove_fails (env_at 1100 (track [] [] [])) = None" by (simp add: env_at_def)
  have b: "\<exists>r' w'. finalize ?rec (empty_world\<lparr>files := [''/rec/a.flac'']\<rparr>) (env_at 1100 (track [] [] [])) = Inr (r', w') \<and>
        seen_urls r' = {''u''} \<and> index_file w' = None"
    using 3 6 empty_url_bypasses_dedupe [of ?md ?rec
        "empty_world\<lparr>files := [''/rec/a.flac'']\<rparr>" "env_at 1100 (track [] [] [])"]
    unfolding 4 5 by simp
  from a b show ?thesis by (rule conjI)
qed

section \<open>Deduplication\<close>

text \<open>The in-memory index only grows, whether the operations return or raise.\<close>

lemma finalize_seen: "keeps_seen r (finalize r w e)"
proof (cases "finalize r w e")
  case (Inl x)
  obtain err r' w' where x: "x = (err, r', w')" by (cases x) auto
  then have "r' = r\<lparr>proc := None\<rparr>" using Inl finalize_raises(4) by blast
  then show ?thesis using Inl x by (simp add: keeps_seen_def state_of_def)
next
  case (Inr x)
  obtain r' w' where x: "x = (r', w')" by (cases x) auto
  then have "seen_urls r \<subseteq> seen_urls r'" using Inr finalize_returns by blast
  then show ?thesis using Inr x by (simp add: keeps_seen_def state_of_def)
qed

lemma start_seen: "keeps_seen r (start r w e md)"
  by (simp add: keeps_seen_def state_of_def start_def Let_def write_status_eq)

lemma keeps_seen_update:
  "seen_urls r1 = seen_urls r \<Longrightarrow> keeps_seen r1 out \<Longrightarrow> keeps_seen r out"
  by (simp add: keeps_seen_def)

lemma keeps_seen_here: "seen_urls r1 = seen_urls r \<Longrightarrow> keeps_seen r (Inr (r1, w))"
  "seen_urls r1 = seen_urls r \<Longrightarrow> keeps_seen r (Inl (err, r1, w))"
  by (simp_all add: keeps_seen_def state_of_def)

lemma ensure_started_seen: "keeps_seen r (ensure_started r w e)"
proof -
  have s: "\<And>r1 md. seen_urls r1 = seen_urls r \<Longrightarrow> keeps_seen r (start r1 w e md)"
    using start_seen keeps_seen_update by blast
  show ?thesis
    by (auto simp: ensure_started_def Let_def keeps_seen_here s split: option.splits sum.splits)
qed

lemma status_branch_seen: "keeps_seen r (status_branch r w ev)"
proof (cases "changed_status ev")
  case None
  then show ?thesis by (simp add: status_branch_def keeps_seen_here)
next
  case (Some s)
  let ?r1 = "r\<lparr>playback_status := Some s\<rparr>"
  have e: "seen_urls ?r1 = seen_urls r" by simp
  have 1: "keeps_seen r (finalize ?r1 w (env_status ev))"
    using e finalize_seen by (rule keeps_seen_update)
  have 2: "keeps_seen r (ensure_started ?r1 w (env_status ev))"
    using e ensure_started_seen by (rule keeps_seen_update)
  have 3: "keeps_seen r (Inr (?r1, w))" using e by (rule keeps_seen_here)
  consider (fin) "s = ''Paused'' \<or> s = ''Stopped''" | (play) "\<not> (s = ''Paused'' \<or> s = ''Stopped'')" "s = ''Playing''"
    | (other) "\<not> (s = ''Paused'' \<or> s = ''Stopped'')" "s \<noteq> ''Playing''" by blast
  then show ?thesis
  proof cases
    case fin
    then have "status_branch r w ev = finalize ?r1 w (env_status ev)"
      using Some by (simp add: status_branch_def Let_def)
    then show ?thesis using 1 by simp
  next
    case play
    then have "status_branch r w ev = ensure_started ?r1 w (env_status ev)"
      using Some by (simp add: status_branch_def Let_def)
    then show ?thesis using 2 by simp
  next
    case other
    then have "status_branch r w ev = Inr (?r1, w)"
      using Some by (simp add: status_branch_def Let_def)
    then show ?thesis using 3 by simp
  qed
qed

lemma metadata_branch_seen: "keeps_seen r (metadata_branch r w ev)"
proof (cases "changed_metadata ev")
  case False
  then show ?thesis by (simp add: metadata_branch_def keeps_seen_here)
next
  case True
  show ?thesis
  proof (cases "get_metadata (metadata_reply ev)")
    case (Inl err)
    then show ?thesis using True by (simp add: metadata_branch_def keeps_seen_here)
  next
    case (Inr md)
    let ?r1 = "r\<lparr>pending := Some md\<rparr>"
    have e: "seen_urls ?r1 = seen_urls r" by simp
    have 1: "keeps_seen r (ensure_started ?r1 w (env_metadata ev))"
      using e ensure_started_seen by (rule keeps_seen_update)
    have 2: "keeps_seen r (Inr (?r1, w))" using e by (rule keeps_seen_here)
    have 3: "keeps_seen r (case finalize ?r1 w (env_metadata ev) of Inl x \<Rightarrow> Inl x
                         | Inr (r2, w2) \<Rightarrow> start r2 w2 (env_restart ev) md)"
    proof (cases "finalize ?r1 w (env_metadata ev)")
      case (Inl x)
      then show ?thesis using finalize_seen [of ?r1 w "env_metadata ev"] by (simp add: keeps_seen_def)
    next
      case (Inr x)
      obtain r2 w2 where x: "x = (r2, w2)" by (cases x) auto
      have "seen_urls r \<subseteq> seen_urls r2"
        using finalize_seen [of ?r1 w "env_metadata ev"] Inr x by (simp add: keeps_seen_def state_of_def)
      moreover have "seen_urls r2 \<subseteq> seen_urls (fst (state_of (start r2 w2 (env_restart ev) md)))"
        using start_seen [of r2 w2 "env_restart ev" md] by (simp add: keeps_seen_def)
      ultimately show ?thesis using Inr x by (simp add: keeps_seen_def)
    qed
    show ?thesis using True Inr 1 2 3 by (simp add: metadata_branch_def Let_def)
  qed
qed

lemma on_properties_changed_seen: "keeps_seen r (on_properties_changed r w ev)"
proof (cases "interface ev \<noteq> ''org.mpris.MediaPlayer2.Player''")
  case True
  then show ?thesis by (simp add: on_properties_changed_def keeps_seen_here)
next
  case False
  show ?thesis
  proof (cases "status_branch r w ev")
    case (Inl x)
    then show ?thesis using False status_branch_seen [of r w ev]
      by (simp add: on_properties_changed_def keeps_seen_def)
  next
    case (Inr x)
    obtain r1 w1 where x: "x = (r1, w1)" by (cases x) auto
    have "seen_urls r \<subseteq> seen_urls r1"
      using status_branch_seen [of r w ev] Inr x by (simp add: keeps_seen_def state_of_def)
    moreover have "seen_urls r1 \<subseteq> seen_urls (fst (state_of (metadata_branch r1 w1 ev)))"
      using metadata_branch_seen [of r1 w1 ev] by (simp add: keeps_seen_def)
    ultimately show ?thesis using False Inr x by (simp add: on_properties_changed_def keeps_seen_def)
  qed
qed

lemma run_seen: "seen_urls (fst s) \<subseteq> seen_urls (fst (snd (run s evs)))"
proof (induction evs arbitrary: s)
  case Nil
  then show ?case by simp
next
  case (Cons ev evs)
  let ?out = "on_properties_changed (fst s) ((snd s)\<lparr>files := files (snd s) @ created ev\<rparr>) ev"
  have k: "seen_urls (fst s) \<subseteq> seen_urls (fst (state_of ?out))"
    using on_properties_changed_seen [of "fst s" _ ev] by (simp add: keeps_seen_def)
  show ?case
  proof (cases ?out)
    case (Inl x)
    obtain err s1 where x: "x = (err, s1)" by (cases x) auto
    have "seen_urls (fst s) \<subseteq> seen_urls (fst s1)" using k Inl x by (simp add: state_of_def)
    moreover have "seen_urls (fst s1) \<subseteq> seen_urls (fst (snd (run s1 evs)))" by (rule Cons.IH)
    ultimately show ?thesis using Inl x by simp
  next
    case (Inr s1)
    have "seen_urls (fst s) \<subseteq> seen_urls (fst s1)" using k Inr by (simp add: state_of_def)
    moreover have "seen_urls (fst s1) \<subseteq> seen_urls (fst (snd (run s1 evs)))" by (rule Cons.IH)
    ultimately show ?thesis using Inr by simp
  qed
qed

text \<open>
  C4. With deduplication enabled, once a non-empty URL is in the in-memory index, after
  any further notifications a start attempt for a track with that URL is a skip: it
  returns with the child process, the spawned processes, the output path, the disk,
  the in-memory index and the index file as they were, the track id set to the
  skipped track's id, and (when the status write succeeds) the status "skipped".
\<close>

theorem dedupe_skip:
  assumes "u \<noteq> []" and "u \<in> seen_urls r0" and "run (r0, w0) evs = (errs, r, w)"
    and "dedupe r" and "url md = u"
  shows "\<exists>r' w'. start r w e md = Inr (r', w') \<and>
           proc r' = proc r \<and> spawned w' = spawned w \<and>
           current_path r' = current_path r \<and> files w' = files w \<and>
           seen_urls r' = seen_urls r \<and> index_file w' = index_file w \<and>
           current_track_id r' = Some (trackid md) \<and>
           (status_ok e \<longrightarrow> map_of (status_file w') ''STATE'' = Some (SStr ''skipped''))"
proof -
  have "u \<in> seen_urls r" using run_seen [of "(r0, w0)" evs] assms(2,3) by auto
  then show ?thesis using assms(1,4,5)
    by (simp add: start_def Let_def write_status_eq)
qed

theorem dedupe_skip_witness:
  "run (idle_recorder True {''u''}, empty_world) [notify (Some ''Paused'') False (track [] [] []) 900] =
     ([], (idle_recorder True {''u''})\<lparr>playback_status := Some ''Paused''\<rparr>, empty_world) \<and>
   (\<exists>r' w'. start ((idle_recorder True {''u''})\<lparr>playback_status := Some ''Paused''\<rparr>) empty_world
               (env_at 1000 (track [] [] [])) (track_md ''/t/9'' ''Song'' ''u'') = Inr (r', w') \<and>
       proc r' = None \<and> spawned w' = [] \<and> current_path r' = None \<and> files w' = [] \<and>
       seen_urls r' = {''u''} \<and> index_file w' = None \<and> current_track_id r' = Some ''/t/9'' \<and>
       map_of (status_file w') ''STATE'' = Some (SStr ''skipped''))"
proof -
  let ?r = "(idle_recorder True {''u''})\<lparr>playback_status := Some ''Paused''\<rparr>"
  let ?md = "track_md ''/t/9'' ''Song'' ''u''"
  have h1: "''u'' \<noteq> []" by simp
  have h2: "''u'' \<in> seen_urls (idle_recorder True {''u''})" by (simp add: idle_recorder_def)
  have h3: "run (idle_recorder True {''u''}, empty_world) [notify (Some ''Paused'') False (track [] [] []) 900] =
     ([], ?r, empty_world)"
    by (simp add: run.simps on_properties_changed_def status_branch_def metadata_branch_def
          finalize_def notify_def idle_recorder_def empty_world_def Let_def)
  have h4: "dedupe ?r" by (simp add: idle_recorder_def)
  have h5: "url ?md = ''u''" by (simp add: track_md_def)
  have f: "proc ?r = None" "current_path ?r = None" "seen_urls ?r = {''u''}" "trackid ?md = ''/t/9''"
    by (simp_all add: idle_recorder_def track_md_def)
  have g: "spawned empty_world = []" "files empty_world = []" "index_file empty_world = None"
    by (simp_all add: empty_world_def)
  have ok: "status_ok (env_at 1000 (track [] [] [])) = True" by (simp add: env_at_def)
  have "\<exists>r' w'. start ?r empty_world (env_at 1000 (track [] [] [])) ?md = Inr (r', w') \<and>
       proc r' = None \<and> spawned w' = [] \<and> current_path r' = None \<and> files w' = [] \<and>
       seen_urls r' = {''u''} \<and> index_file w' = None \<and> current_track_id r' = Some ''/t/9'' \<and>
       map_of (status_file w') ''STATE'' = Some (SStr ''skipped'')"
    using dedupe_skip [OF h1 h2 h3 h4 h5, of "env_at 1000 (track [] [] [])"]
    unfolding f g ok by simp
  with h3 show ?thesis by (rule conjI)
qed

section \<open>The state invariant\<close>

lemma init_inv:
  assumes "init dir src lvl m dd w0 ok = Inr (r0, w1)"
  shows "context_inv r0"
  using assms
  by (auto simp: init_def Let_def write_status_eq load_index_def context_inv_def split: option.splits if_splits)

lemma prime_inv:
  assumes "context_inv r"
  shows "keeps_inv (prime r w st md e)"
proof (cases "get_metadata md")
  case (Inl err)
  then show ?thesis using assms by (simp add: prime_def Let_def keeps_inv_def)
next
  case (Inr m)
  let ?r2 = "r\<lparr>playback_status := Some st, pending := Some m\<rparr>"
  have i: "context_inv ?r2" using assms by simp
  show ?thesis
  proof (cases "st = ''Playing''")
    case True
    then have "prime r w st md e = ensure_started ?r2 w e" using Inr by (simp add: prime_def Let_def)
    then show ?thesis using ensure_started_inv [OF i] by simp
  next
    case False
    then have "prime r w st md e = Inr (?r2, w)" using Inr by (simp add: prime_def Let_def)
    then show ?thesis using i by (simp add: keeps_inv_def)
  qed
qed

text \<open>
  C2, as stated, fails in two ways. On the dedupe-skip path: the index file holds a URL;
  the recorder is constructed and primed while the player is paused; then one
  notification reports Playing with a track of that URL. The start attempt is a skip:
  afterwards \<open>current_track_id\<close> and \<open>current_url\<close> are set and no child process is
  supervised. In finalize: a recording of ten seconds is stopped by Paused, its file
  exists and the deletion is refused; the exception escapes the handler, and afterwards
  no child process is supervised while \<open>current_path\<close> is still set.
\<close>

theorem context_set_without_process:
  "init ''/rec'' ''rec.monitor'' 5 30 True indexed_world True =
     Inr (idle_recorder True {''spotify:track:1''}, indexed_world\<lparr>status_file := [(''STATE'', SStr ''idle'')]\<rparr>) \<and>
   prime (idle_recorder True {''spotify:track:1''}) (indexed_world\<lparr>status_file := [(''STATE'', SStr ''idle'')]\<rparr>)
       ''Paused'' (track [] [] []) (env_at 999 (track [] [] [])) =
     Inr ((idle_recorder True {''spotify:track:1''})
            \<lparr>playback_status := Some ''Paused'', pending := Some (track_md [] [] [])\<rparr>,
          indexed_world\<lparr>status_file := [(''STATE'', SStr ''idle'')]\<rparr>) \<and>
   run ((idle_recorder True {''spotify:track:1''})
            \<lparr>playback_status := Some ''Paused'', pending := Some (track_md [] [] [])\<rparr>,
        indexed_world\<lparr>status_file := [(''STATE'', SStr ''idle'')]\<rparr>)
       [notify (Some ''Playing'') True (track ''/t/1'' ''Song'' ''spotify:track:1'') 1000] =
     ([], (idle_recorder True {''spotify:track:1''})
            \<lparr>current_track_id := Some ''/t/1'', current_url := Some ''spotify:track:1'',
             playback_status := Some ''Playing'',
             pending := Some (track_md ''/t/1'' ''Song'' ''spotify:track:1'')\<rparr>,
          indexed_world\<lparr>status_file :=
             [(''STATE'', SStr ''skipped''), (''ARTIST'', SStr ''Artist''),
              (''TITLE'', SStr ''Song''), (''SPOTIFY_URL'', SStr ''spotify:track:1'')]\<rparr>) \<and>
   proc ((idle_recorder True {''spotify:track:1''})
            \<lparr>current_track_id := Some ''/t/1'', current_url := Some ''spotify:track:1'',
             playback_status := Some ''Playing'',
             pending := Some (track_md ''/t/1'' ''Song'' ''spotify:track:1'')\<rparr>) = None \<and>
   current_url ((idle_recorder True {''spotify:track:1''})
            \<lparr>current_track_id := Some ''/t/1'', current_url := Some ''spotify:track:1'',
             playback_status := Some ''Playing'',
             pending := Some (track_md ''/t/1'' ''Song'' ''spotify:track:1'')\<rparr>) \<noteq> None \<and>
   fst (run (idle_recorder False {}, empty_world)
         [notify (Some ''Playing'') True (track ''/t/1'' ''Song'' []) 1000,
          refusing (notify (Some ''Paused'') False (track ''/t/1'' ''Song'' []) 1010)
            [''/rec/Artist - Song.flac'']]) = [PermissionError] \<and>
   proc (fst (snd (run (idle_recorder False {}, empty_world)
         [notify (Some ''Playing'') True (track ''/t/1'' ''Song'' []) 1000,
          refusing (notify (Some ''Paused'') False (track ''/t/1'' ''Song'' []) 1010)
            [''/rec/Artist - Song.flac'']]))) = None \<and>
   current_path (fst (snd (run (idle_recorder False {}, empty_world)
         [notify (Some ''Playing'') True (track ''/t/1'' ''Song'' []) 1000,
          refusing (notify (Some ''Paused'') False (track ''/t/1'' ''Song'' []) 1010)
            [''/rec/Artist - Song.flac'']]))) = Some ''/rec/Artist - Song.flac''"
proof -
  have r: "run (idle_recorder False {}, empty_world)
         [notify (Some ''Playing'') True (track ''/t/1'' ''Song'' []) 1000,
          refusing (notify (Some ''Paused'') False (track ''/t/1'' ''Song'' []) 1010)
            [''/rec/Artist - Song.flac'']] =
       ([PermissionError],
        (recording ''/rec/Artist - Song.flac'' 1000 [] (idle_recorder False {}))
          \<lparr>proc := None, playback_status := Some ''Paused'',
           pending := Some (track_md ''/t/1'' ''Song'' [])\<rparr>,
        empty_world\<lparr>files := [''/rec/Artist - Song.flac''],
          status_file :=
             [(''STATE'', SStr ''recording''), (''ARTIST'', SStr ''Artist''),
              (''TITLE'', SStr ''Song''), (''FILE'', SStr ''/rec/Artist - Song.flac''),
              (''STARTED_AT'', SInt 1000), (''SPOTIFY_URL'', SStr [])],
          spawned := [[''ffmpeg'', ''-hide_banner'', ''-loglevel'', ''error'', ''-f'',
             ''pulse'', ''-i'', ''rec.monitor'', ''-acodec'', ''flac'',
             ''-compression_level'', ''5'', ''-metadata'',
             ''ARTIST=Artist'', ''-metadata'', ''TITLE=Song'',
             ''/rec/Artist - Song.flac'']],
          stopped := [Interrupted]\<rparr>)"
    by (simp add: get_metadata_track model_defs refusing_def str_nat.simps)
  have a: "init ''/rec'' ''rec.monitor'' 5 30 True indexed_world True =
     Inr (idle_recorder True {''spotify:track:1''}, indexed_world\<lparr>status_file := [(''STATE'', SStr ''idle'')]\<rparr>)"
    by (auto simp: model_defs indexed_world_def)
  have b: "prime (idle_recorder True {''spotify:track:1''}) (indexed_world\<lparr>status_file := [(''STATE'', SStr ''idle'')]\<rparr>)
       ''Paused'' (track [] [] []) (env_at 999 (track [] [] [])) =
     Inr ((idle_recorder True {''spotify:track:1''})
            \<lparr>playback_status := Some ''Paused'', pending := Some (track_md [] [] [])\<rparr>,
          indexed_world\<lparr>status_file := [(''STATE'', SStr ''idle'')]\<rparr>)"
    by (simp add: prime_def get_metadata_track Let_def)
  have c: "run ((idle_recorder True {''spotify:track:1''})
            \<lparr>playback_status := Some ''Paused'', pending := Some (track_md [] [] [])\<rparr>,
        indexed_world\<lparr>status_file := [(''STATE'', SStr ''idle'')]\<rparr>)
       [notify (Some ''Playing'') True (track ''/t/1'' ''Song'' ''spotify:track:1'') 1000] =
     ([], (idle_recorder True {''spotify:track:1''})
            \<lparr>current_track_id := Some ''/t/1'', current_url := Some ''spotify:track:1'',
             playback_status := Some ''Playing'',
             pending := Some (track_md ''/t/1'' ''Song'' ''spotify:track:1'')\<rparr>,
          indexed_world\<lparr>status_file :=
             [(''STATE'', SStr ''skipped''), (''ARTIST'', SStr ''Artist''),
              (''TITLE'', SStr ''Song''), (''SPOTIFY_URL'', SStr ''spotify:track:1'')]\<rparr>)"
    by (simp add: get_metadata_track model_defs indexed_world_def)
  show ?thesis unfolding r a b c by (simp add: idle_recorder_def recording_def)
qed

text \<open>
  C2, amended. After the constructor and \<open>prime\<close>, after every sequence of notifications
  during which no exception of a failed deletion escaped: \<open>current_path\<close> is set exactly
  when a child process is supervised, \<open>current_started_at\<close> is set exactly when a child
  process is supervised, whenever a child process is supervised \<open>current_track_id\<close> and
  \<open>current_url\<close> are set too, and without a process these two are set only as a skipped
  duplicate leaves them: deduplication is on, both are set, and the URL is non-empty
  and in the index.
\<close>

theorem context_invariant:
  assumes "init dir src lvl m dd w0 ok = Inr (r0, w1)" and "prime r0 w1 st md e = Inr s"
    and "run s evs = (errs, r, w)" and "\<forall>err\<in>set errs. \<not> deletion_error err"
  shows "(current_path r \<noteq> None \<longleftrightarrow> proc r \<noteq> None) \<and>
         (current_started_at r \<noteq> None \<longleftrightarrow> proc r \<noteq> None) \<and>
         (proc r \<noteq> None \<longrightarrow> current_track_id r \<noteq> None \<and> current_url r \<noteq> None) \<and>
         (proc r = None \<and> (current_track_id r \<noteq> None \<or> current_url r \<noteq> None) \<longrightarrow>
            dedupe r \<and> current_track_id r \<noteq> None \<and>
            (\<exists>u. current_url r = Some u \<and> u \<noteq> [] \<and> u \<in> seen_urls r))"
proof -
  have "context_inv r0" using assms(1) by (rule init_inv)
  then have "keeps_inv (prime r0 w1 st md e)" by (rule prime_inv)
  then have "context_inv (fst s)" using assms(2) by (cases s) (simp add: keeps_inv_def)
  then have "context_inv (fst (snd (run s evs)))" using assms(3,4) by (intro run_inv) simp_all
  then have "context_inv r" using assms(3) by simp
  then show ?thesis unfolding context_inv_def .
qed


theorem context_invariant_witness:
  "init ''/rec'' ''rec.monitor'' 5 30 True indexed_world True =
     Inr (idle_recorder True {''spotify:track:1''}, snd primed_state) \<and>
   prime (idle_recorder True {''spotify:track:1''}) (snd primed_state)
       ''Paused'' (track [] [] []) (env_at 999 (track [] [] [])) = Inr primed_state \<and>
   fst (run primed_state two_tracks) = [] \<and>
   proc (fst (snd (run primed_state two_tracks))) \<noteq> None \<and>
   current_path (fst (snd (run primed_state two_tracks))) \<noteq> None \<and>
   current_started_at (fst (snd (run primed_state two_tracks))) \<noteq> None \<and>
   current_track_id (fst (snd (run primed_state two_tracks))) \<noteq> None \<and>
   current_url (fst (snd (run primed_state two_tracks))) \<noteq> None"
proof -
  have a: "init ''/rec'' ''rec.monitor'' 5 30 True indexed_world True =
     Inr (idle_recorder True {''spotify:track:1''}, snd primed_state)"
    by (auto simp: model_defs indexed_world_def primed_state_def)
  have b: "prime (idle_recorder True {''spotify:track:1''}) (snd primed_state)
       ''Paused'' (track [] [] []) (env_at 999 (track [] [] [])) = Inr primed_state"
    by (simp add: prime_def get_metadata_track Let_def primed_state_def)
  have ev: "fst (run primed_state two_tracks) = []"
    and pr: "proc (fst (snd (run primed_state two_tracks))) \<noteq> None"
    by (simp_all add: primed_state_def two_tracks_def get_metadata_track model_defs indexed_world_def)
  have c: "run primed_state two_tracks =
     ([], fst (snd (run primed_state two_tracks)), snd (snd (run primed_state two_tracks)))"
    using ev by (metis prod.collapse)
  have d: "\<forall>err\<in>set []. \<not> deletion_error err" by simp
  from context_invariant [OF a b c d] pr a b ev show ?thesis by simp
qed

section \<open>Starting without a title\<close>

text \<open>
  A start attempt through \<open>ensure_started\<close> spawns a child process only for metadata
  with a title.
\<close>

lemma start_spawns:
  "spawned (snd (state_of (start r w e md))) = spawned w \<or>
   (\<exists>p. spawned (snd (state_of (start r w e md))) = spawned w @ [ffmpeg_cmd r md p])"
  by (auto simp: start_def Let_def write_status_eq state_of_def)

lemma ensure_started_titled:
  "spawned (snd (state_of (ensure_started r w e))) = spawned w \<or>
   (\<exists>r0 md p. title md \<noteq> [] \<and>
        spawned (snd (state_of (ensure_started r w e))) = spawned w @ [ffmpeg_cmd r0 md p])"
proof (cases "playback_status r \<noteq> Some ''Playing'' \<or> proc r \<noteq> None")
  case True
  then show ?thesis by (auto simp: ensure_started_def state_of_def)
next
  case False
  show ?thesis
  proof (cases "titled (pending r)")
    case (Some md)
    then have t: "title md \<noteq> []" by (auto simp: titled_def split: option.splits if_splits)
    have "ensure_started r w e = start r w e md" using False Some by (simp add: ensure_started_def)
    then show ?thesis using start_spawns [of r w e md] t by auto
  next
    case None
    show ?thesis
    proof (cases "get_metadata (reply e)")
      case (Inl err)
      then show ?thesis using False None by (simp add: ensure_started_def state_of_def)
    next
      case (Inr md)
      show ?thesis
      proof (cases "title md = []")
        case True
        then show ?thesis using False None Inr by (simp add: ensure_started_def state_of_def Let_def)
      next
        case nonempty: False
        then have "ensure_started r w e = start (r\<lparr>pending := Some md\<rparr>) w e md"
          using False None Inr by (simp add: ensure_started_def Let_def)
        then show ?thesis using start_spawns [of "r\<lparr>pending := Some md\<rparr>" w e md] nonempty by auto
      qed
    qed
  qed
qed

text \<open>
  C1 says that no child process is spawned for metadata with an empty title, on the
  track-advance path too. On that path the handler calls \<open>start\<close> without the title check of
  \<open>ensure_started\<close>: while the first track is being recorded, a metadata change with a
  new track id and an empty title finalizes the recording and spawns a second child
  process, whose arguments carry the empty title.
\<close>

theorem track_advance_spawns_untitled:
  "get_metadata (track ''/t/2'' [] []) = Inr (track_md ''/t/2'' [] []) \<and>
   title (track_md ''/t/2'' [] []) = [] \<and>
   run (idle_recorder False {}, empty_world)
       [notify (Some ''Playing'') True (track ''/t/1'' ''Song'' []) 1000,
        notify None True (track ''/t/2'' [] []) 1100] =
     ([],
      \<lparr>out_dir = ''/rec'', source = ''rec.monitor'', comp_level = 5,
           min_seconds = 30, dedupe = False,
           proc = Some [''ffmpeg'', ''-hide_banner'', ''-loglevel'', ''error'', ''-f'',
             ''pulse'', ''-i'', ''rec.monitor'', ''-acodec'', ''flac'',
             ''-compression_level'', ''5'', ''-metadata'',
             ''ARTIST=Artist'', ''-metadata'', ''TITLE='',
             ''/rec/Artist.flac''],
           current_path = Some ''/rec/Artist.flac'',
           current_started_at = Some 1100, current_track_id = Some ''/t/2'',
           current_url = Some [], playback_status = Some ''Playing'',
           pending = Some \<lparr>trackid = ''/t/2'', artist = ''Artist'', title = [],
               album = [], url = [], tracknumber = [], discnumber = []\<rparr>,
           seen_urls = {}\<rparr>,
      \<lparr>files = [], index_file = None,
           status_file =
             [(''STATE'', SStr ''recording''), (''ARTIST'', SStr ''Artist''),
              (''TITLE'', SStr []), (''FILE'', SStr ''/rec/Artist.flac''),
              (''STARTED_AT'', SInt 1100), (''SPOTIFY_URL'', SStr [])],
           spawned =
             [[''ffmpeg'', ''-hide_banner'', ''-loglevel'', ''error'', ''-f'',
               ''pulse'', ''-i'', ''rec.monitor'', ''-acodec'', ''flac'',
               ''-compression_level'', ''5'', ''-metadata'',
               ''ARTIST=Artist'', ''-metadata'', ''TITLE=Song'',
               ''/rec/Artist - Song.flac''],
              [''ffmpeg'', ''-hide_banner'', ''-loglevel'', ''error'', ''-f'',
               ''pulse'', ''-i'', ''rec.monitor'', ''-acodec'', ''flac'',
               ''-compression_level'', ''5'', ''-metadata'',
               ''ARTIST=Artist'', ''-metadata'', ''TITLE='',
               ''/rec/Artist.flac'']],
           stopped = [Interrupted]\<rparr>)"
  by (simp add: get_metadata_track model_defs str_nat.simps)

section \<open>What a start establishes\<close>

text \<open>
  A start that is not a skip leaves a supervised child process, a non-empty output
  path and the reading of the clock as start time.
\<close>

lemma path_join_nonempty: "b \<noteq> [] \<Longrightarrow> path_join a b \<noteq> []"
  by (simp add: path_join_def)

lemma unique_path_nonempty: "unique_path d fs b \<noteq> []"
proof -
  have "unique_path d fs b = path_join d (sanitize b @ ''.flac'') \<or>
        (\<exists>j. unique_path d fs b = numbered d (sanitize b) j)"
    using unique_loop_counter [of 2 d fs "sanitize b"]
    by (auto simp: unique_path_def Let_def)
  then show ?thesis by (auto simp: numbered_def path_join_nonempty)
qed

lemma start_begins_recording:
  assumes "\<not> (dedupe r \<and> url md \<noteq> [] \<and> url md \<in> seen_urls r)"
  shows "\<exists>r' w' c p. start r w e md = Inr (r', w') \<and> proc r' = Some c \<and>
           current_path r' = Some p \<and> p \<noteq> [] \<and> current_started_at r' = Some (now e)"
  using assms by (auto simp: start_def Let_def write_status_eq unique_path_nonempty)

section \<open>Normalized metadata\<close>

lemma str_nat_nonempty: "str_nat n \<noteq> []"
  by (simp add: str_nat.simps [of n])

lemma py_str_int_pos: "0 < i \<Longrightarrow> py_str_int i \<noteq> [] \<and> py_str_int i \<noteq> ''0''"
proof -
  assume "0 < i"
  then have "py_str_int i = str_nat (nat i)" "nat i \<noteq> 0" by (simp_all add: py_str_int_def)
  moreover have "str_nat 0 = ''0''" by (simp add: str_nat.simps digit_char_def)
  ultimately show ?thesis using str_nat_inj [of "nat i" 0] str_nat_nonempty [of "nat i"] by auto
qed

lemma dropWhile_keeps: "c \<in> set s \<Longrightarrow> \<not> P c \<Longrightarrow> c \<in> set (dropWhile P s)"
  by (induction s) auto

lemma strip_where_keeps: "c \<in> set s \<Longrightarrow> \<not> P c \<Longrightarrow> c \<in> set (strip_where P s)"
proof -
  assume a: "c \<in> set s" "\<not> P c"
  then have "c \<in> set (rev (dropWhile P s))" by (simp add: dropWhile_keeps)
  then have "c \<in> set (dropWhile P (rev (dropWhile P s)))" using a(2) by (rule dropWhile_keeps)
  then show ?thesis by (simp add: strip_where_def)
qed

lemma strip_where_subset: "set (strip_where P s) \<subseteq> set s"
proof -
  have "set (dropWhile P (rev (dropWhile P s))) \<subseteq> set (rev (dropWhile P s))"
    by (auto dest: set_dropWhileD)
  also have "\<dots> \<subseteq> set s" by (auto dest: set_dropWhileD)
  finally show ?thesis by (simp add: strip_where_def)
qed

lemma digits_ok_chars: "digits_ok prev body \<Longrightarrow> c \<in> set body \<Longrightarrow> is_digit c \<or> c = CHR ''_''"
  by (induction body arbitrary: prev) (auto split: if_splits)

lemma digits_ok_has_digit: "digits_ok False body \<Longrightarrow> \<exists>c\<in>set body. is_digit c"
  by (cases body) (auto split: if_splits)

lemma int_of_string_parsed:
  assumes "int_of_string s = Inr i"
  shows "(\<forall>c\<in>set s. is_digit c \<or> c = CHR ''_'' \<or> c = CHR ''+'' \<or> c = CHR ''-'' \<or> is_int_space c) \<and>
         (\<exists>c\<in>set s. is_digit c)"
proof -
  define t where "t = strip_where is_int_space s"
  define body where "body = (if t \<noteq> [] \<and> (hd t = CHR ''-'' \<or> hd t = CHR ''+'') then tl t else t)"
  have ok: "digits_ok False body"
  proof (rule ccontr)
    assume "\<not> digits_ok False body"
    then have "int_of_string s = Inl ValueError"
      unfolding int_of_string_def Let_def body_def t_def by simp
    then show False using assms by simp
  qed
  have sub: "set body \<subseteq> set t" by (cases t) (auto simp: body_def)
  have ts: "set t \<subseteq> set s" unfolding t_def by (rule strip_where_subset)
  have 1: "\<forall>c\<in>set s. is_digit c \<or> c = CHR ''_'' \<or> c = CHR ''+'' \<or> c = CHR ''-'' \<or> is_int_space c"
  proof
    fix c assume c: "c \<in> set s"
    show "is_digit c \<or> c = CHR ''_'' \<or> c = CHR ''+'' \<or> c = CHR ''-'' \<or> is_int_space c"
    proof (cases "is_int_space c \<or> c = CHR ''+'' \<or> c = CHR ''-''")
      case True
      then show ?thesis by blast
    next
      case False
      then have ct: "c \<in> set t" using c by (simp add: t_def strip_where_keeps)
      have "c \<in> set body"
      proof (cases t)
        case Nil
        then show ?thesis using ct by simp
      next
        case (Cons h tl')
        then show ?thesis using ct False by (auto simp: body_def)
      qed
      then show ?thesis using ok digits_ok_chars by blast
    qed
  qed
  have 2: "\<exists>c\<in>set s. is_digit c" using digits_ok_has_digit [OF ok] sub ts by blast
  from 1 2 show ?thesis by blast
qed

lemma filter_dropWhile_other:
  "(\<And>x. P x \<Longrightarrow> \<not> Q x) \<Longrightarrow> filter Q (dropWhile P xs) = filter Q xs"
  by (induction xs) auto

lemma filter_strip_where:
  assumes "\<And>x. P x \<Longrightarrow> \<not> Q x"
  shows "filter Q (strip_where P s) = filter Q s"
proof -
  have "filter Q (strip_where P s) = rev (filter Q (dropWhile P (rev (dropWhile P s))))"
    by (simp add: strip_where_def rev_filter)
  also have "\<dots> = rev (filter Q (rev (dropWhile P s)))"
    using assms by (simp add: filter_dropWhile_other)
  also have "\<dots> = filter Q (dropWhile P s)" by (simp add: rev_filter)
  also have "\<dots> = filter Q s" using assms by (simp add: filter_dropWhile_other)
  finally show ?thesis .
qed

lemma int_of_string_limit:
  assumes "max_str_digits < length (filter is_digit s)"
  shows "int_of_string s = Inl ValueError"
proof -
  define t where "t = strip_where is_int_space s"
  define body where "body = (if t \<noteq> [] \<and> (hd t = CHR ''-'' \<or> hd t = CHR ''+'') then tl t else t)"
  have sp: "\<And>x. is_int_space x \<Longrightarrow> \<not> is_digit x"
    by (auto simp: is_int_space_def is_digit_def)
  have ft: "filter is_digit t = filter is_digit s" unfolding t_def using sp by (rule filter_strip_where)
  have "filter is_digit body = filter is_digit t"
    by (cases t) (auto simp: body_def is_digit_def)
  then have "max_str_digits < length (filter is_digit body)" using assms ft by simp
  then show ?thesis unfolding int_of_string_def Let_def body_def t_def by simp
qed

lemma to_int_str_absent_or_positive:
  "to_int_str v = [] \<or> (\<exists>i>0. to_int_str v = py_str_int i)"
  by (auto simp: to_int_str_def str_of_int_def split: option.splits sum.splits if_splits)

lemma to_int_str_not_zero: "to_int_str v \<noteq> ''0''"
  using py_str_int_pos
  by (auto simp: to_int_str_def str_of_int_def split: option.splits sum.splits if_splits)

lemma to_int_str_rules:
  "(v = None \<longrightarrow> to_int_str v = []) \<and>
   (\<forall>x. v = Some x \<longrightarrow>
      (\<forall>e. py_int x = Inl e \<longrightarrow> to_int_str v = []) \<and>
      (\<forall>i. py_int x = Inr i \<and> i \<le> 0 \<longrightarrow> to_int_str v = []) \<and>
      (\<forall>i. py_int x = Inr i \<and> 0 < i \<and> length (py_str_int i) \<le> max_str_digits \<longrightarrow>
             to_int_str v = py_str_int i \<and> to_int_str v \<noteq> []) \<and>
      (\<forall>s c. x = DString s \<and> c \<in> set s \<and> \<not> is_digit c \<and> c \<noteq> CHR ''_'' \<and> c \<noteq> CHR ''+'' \<and>
             c \<noteq> CHR ''-'' \<and> \<not> is_int_space c \<longrightarrow> to_int_str v = []) \<and>
      (\<forall>s. x = DString s \<and> (\<forall>c\<in>set s. \<not> is_digit c) \<longrightarrow> to_int_str v = []) \<and>
      (\<forall>s. x = DString s \<and> max_str_digits < length (filter is_digit s) \<longrightarrow> to_int_str v = []))"
proof (intro conjI allI impI)
  assume "v = None" then show "to_int_str v = []" by (simp add: to_int_str_def)
next
  fix x e assume "v = Some x" "py_int x = Inl e"
  then show "to_int_str v = []" by (simp add: to_int_str_def)
next
  fix x i assume "v = Some x" "py_int x = Inr i \<and> i \<le> 0"
  then show "to_int_str v = []" by (simp add: to_int_str_def)
next
  fix x i assume a: "v = Some x" "py_int x = Inr i \<and> 0 < i \<and> length (py_str_int i) \<le> max_str_digits"
  then have "py_str_int i = str_nat (nat \<bar>i\<bar>)" by (simp add: py_str_int_def)
  then show "to_int_str v = py_str_int i" using a by (simp add: to_int_str_def str_of_int_def)
next
  fix x i assume a: "v = Some x" "py_int x = Inr i \<and> 0 < i \<and> length (py_str_int i) \<le> max_str_digits"
  then have "py_str_int i = str_nat (nat \<bar>i\<bar>)" by (simp add: py_str_int_def)
  then have "to_int_str v = py_str_int i" using a by (simp add: to_int_str_def str_of_int_def)
  then show "to_int_str v \<noteq> []" using a py_str_int_pos by simp
next
  fix x s c
  assume a: "v = Some x"
    "x = DString s \<and> c \<in> set s \<and> \<not> is_digit c \<and> c \<noteq> CHR ''_'' \<and> c \<noteq> CHR ''+'' \<and> c \<noteq> CHR ''-'' \<and> \<not> is_int_space c"
  have "\<And>i. int_of_string s \<noteq> Inr i" using int_of_string_parsed a(2) by blast
  then obtain e where "int_of_string s = Inl e" by (cases "int_of_string s") auto
  then show "to_int_str v = []" using a by (simp add: to_int_str_def)
next
  fix x s assume a: "v = Some x" "x = DString s \<and> (\<forall>c\<in>set s. \<not> is_digit c)"
  have "\<And>i. int_of_string s \<noteq> Inr i" using int_of_string_parsed a(2) by blast
  then obtain e where "int_of_string s = Inl e" by (cases "int_of_string s") auto
  then show "to_int_str v = []" using a by (simp add: to_int_str_def)
next
  fix x s assume a: "v = Some x" "x = DString s \<and> max_str_digits < length (filter is_digit s)"
  then have "int_of_string s = Inl ValueError" using int_of_string_limit by blast
  then show "to_int_str v = []" using a by (simp add: to_int_str_def)
qed

lemma get_metadata_returns:
  "(\<exists>m. get_metadata raw = Inr m) \<longleftrightarrow>
   (xesam_artist raw = None \<or> (\<exists>v. xesam_artist raw = Some v \<and> (\<not> truthy v \<or> indexable v)))"
proof (cases "xesam_artist raw")
  case None
  then show ?thesis by (simp add: get_metadata_def)
next
  case (Some v)
  have "truthy v \<Longrightarrow> (\<exists>x. first_item v = Inr x) \<longleftrightarrow> indexable v"
    by (induction v rule: first_item.induct) simp_all
  then show ?thesis using Some
    by (cases "truthy v") (auto simp: get_metadata_def split: sum.splits)
qed

lemma get_metadata_fields:
  assumes "get_metadata raw = Inr m"
  shows "trackid m = get_text (mpris_trackid raw)" and "title m = get_text (xesam_title raw)"
    and "album m = get_text (xesam_album raw)" and "url m = get_text (xesam_url raw)"
    and "tracknumber m = to_int_str (xesam_trackNumber raw)"
    and "discnumber m = to_int_str (xesam_discNumber raw)"
    and "xesam_artist raw = None \<Longrightarrow> artist m = []"
    and "\<And>v. xesam_artist raw = Some v \<Longrightarrow> \<not> truthy v \<Longrightarrow> artist m = []"
    and "\<And>x xs. xesam_artist raw = Some (DArray (x # xs)) \<Longrightarrow> artist m = py_str x"
    and "\<And>c cs. xesam_artist raw = Some (DBasic (DString (c # cs))) \<Longrightarrow> artist m = [c]"
  using assms
  by (auto simp: get_metadata_def split: option.splits sum.splits if_splits)


text \<open>
  C7, as stated, at a bag whose artist entry is the number 5: the value is truthy and
  not subscriptable, so \<^verbatim>\<open>artists[0]\<close> raises \<^verbatim>\<open>TypeError\<close> and no record is returned.
\<close>

theorem get_metadata_numeric_artist:
  "get_metadata numeric_artist_bag = Inl TypeError"
  by (simp add: get_metadata_def numeric_artist_bag_def)

text \<open>
  C7, amended. The normalizer returns a record exactly for the bags whose artist entry
  is absent, falsy (an empty array, an empty string, zero) or subscriptable (an array
  or a string). In every record it returns, the track number and the disc number are
  the empty string or the decimal form of a positive integer, never "0": an absent
  entry, a value that \<^verbatim>\<open>int\<close> rejects and a value that is zero or negative all give the
  empty string, a positive value gives its decimal form (up to the interpreter's limit
  on digits). Text that holds a character other than a digit, a sign, an underscore
  or the whitespace \<^verbatim>\<open>int\<close> skips, text without any digit, and text with more digits than
  the limit, are rejected. The track id,
  title, album and URL are the text of the entry, and the empty string when the entry
  is absent; the artist is the text of the first item of the entry, and the empty
  string when the entry is absent or falsy. Every field of the record is a string.
\<close>

theorem get_metadata_normalizes:
  "((\<exists>m. get_metadata raw = Inr m) \<longleftrightarrow>
    (xesam_artist raw = None \<or> (\<exists>v. xesam_artist raw = Some v \<and> (\<not> truthy v \<or> indexable v)))) \<and>
   (\<forall>m. get_metadata raw = Inr m \<longrightarrow>
      (tracknumber m = [] \<or> (\<exists>i>0. tracknumber m = py_str_int i)) \<and>
      (discnumber m = [] \<or> (\<exists>i>0. discnumber m = py_str_int i)) \<and>
      tracknumber m \<noteq> ''0'' \<and> discnumber m \<noteq> ''0'' \<and>
      ((xesam_trackNumber raw = None \<longrightarrow> tracknumber m = []) \<and>
       (\<forall>x. xesam_trackNumber raw = Some x \<longrightarrow>
          (\<forall>e. py_int x = Inl e \<longrightarrow> tracknumber m = []) \<and>
          (\<forall>i. py_int x = Inr i \<and> i \<le> 0 \<longrightarrow> tracknumber m = []) \<and>
          (\<forall>i. py_int x = Inr i \<and> 0 < i \<and> length (py_str_int i) \<le> max_str_digits \<longrightarrow>
                 tracknumber m = py_str_int i \<and> tracknumber m \<noteq> []) \<and>
          (\<forall>s c. x = DString s \<and> c \<in> set s \<and> \<not> is_digit c \<and> c \<noteq> CHR ''_'' \<and> c \<noteq> CHR ''+'' \<and>
                 c \<noteq> CHR ''-'' \<and> \<not> is_int_space c \<longrightarrow> tracknumber m = []) \<and>
          (\<forall>s. x = DString s \<and> (\<forall>c\<in>set s. \<not> is_digit c) \<longrightarrow> tracknumber m = []) \<and>
          (\<forall>s. x = DString s \<and> max_str_digits < length (filter is_digit s) \<longrightarrow> tracknumber m = []))) \<and>
      ((xesam_discNumber raw = None \<longrightarrow> discnumber m = []) \<and>
       (\<forall>x. xesam_discNumber raw = Some x \<longrightarrow>
          (\<forall>e. py_int x = Inl e \<longrightarrow> discnumber m = []) \<and>
          (\<forall>i. py_int x = Inr i \<and> i \<le> 0 \<longrightarrow> discnumber m = []) \<and>
          (\<forall>i. py_int x = Inr i \<and> 0 < i \<and> length (py_str_int i) \<le> max_str_digits \<longrightarrow>
                 discnumber m = py_str_int i \<and> discnumber m \<noteq> []) \<and>
          (\<forall>s c. x = DString s \<and> c \<in> set s \<and> \<not> is_digit c \<and> c \<noteq> CHR ''_'' \<and> c \<noteq> CHR ''+'' \<and>
                 c \<noteq> CHR ''-'' \<and> \<not> is_int_space c \<longrightarrow> discnumber m = []) \<and>
          (\<forall>s. x = DString s \<and> (\<forall>c\<in>set s. \<not> is_digit c) \<longrightarrow> discnumber m = []) \<and>
          (\<forall>s. x = DString s \<and> max_str_digits < length (filter is_digit s) \<longrightarrow> discnumber m = []))) \<and>
      (mpris_trackid raw = None \<longrightarrow> trackid m = []) \<and>
      (xesam_title raw = None \<longrightarrow> title m = []) \<and>
      (xesam_album raw = None \<longrightarrow> album m = []) \<and>
      (xesam_url raw = None \<longrightarrow> url m = []) \<and>
      (\<forall>x. mpris_trackid raw = Some x \<longrightarrow> trackid m = py_str x) \<and>
      (\<forall>x. xesam_title raw = Some x \<longrightarrow> title m = py_str x) \<and>
      (\<forall>x. xesam_album raw = Some x \<longrightarrow> album m = py_str x) \<and>
      (\<forall>x. xesam_url raw = Some x \<longrightarrow> url m = py_str x) \<and>
      (xesam_artist raw = None \<longrightarrow> artist m = []) \<and>
      (\<forall>v. xesam_artist raw = Some v \<and> \<not> truthy v \<longrightarrow> artist m = []) \<and>
      (\<forall>x xs. xesam_artist raw = Some (DArray (x # xs)) \<longrightarrow> artist m = py_str x) \<and>
      (\<forall>c cs. xesam_artist raw = Some (DBasic (DString (c # cs))) \<longrightarrow> artist m = [c]))"
proof (rule conjI [OF get_metadata_returns], intro allI impI)
  fix m assume m: "get_metadata raw = Inr m"
  note f = get_metadata_fields [OF m]
  have c1: "tracknumber m = [] \<or> (\<exists>i>0. tracknumber m = py_str_int i)"
    unfolding f(5) by (rule to_int_str_absent_or_positive)
  have c2: "discnumber m = [] \<or> (\<exists>i>0. discnumber m = py_str_int i)"
    unfolding f(6) by (rule to_int_str_absent_or_positive)
  have c3: "tracknumber m \<noteq> ''0''" unfolding f(5) by (rule to_int_str_not_zero)
  have c4: "discnumber m \<noteq> ''0''" unfolding f(6) by (rule to_int_str_not_zero)
  have c5: "(xesam_trackNumber raw = None \<longrightarrow> tracknumber m = []) \<and>
       (\<forall>x. xesam_trackNumber raw = Some x \<longrightarrow>
          (\<forall>e. py_int x = Inl e \<longrightarrow> tracknumber m = []) \<and>
          (\<forall>i. py_int x = Inr i \<and> i \<le> 0 \<longrightarrow> tracknumber m = []) \<and>
          (\<forall>i. py_int x = Inr i \<and> 0 < i \<and> length (py_str_int i) \<le> max_str_digits \<longrightarrow>
                 tracknumber m = py_str_int i \<and> tracknumber m \<noteq> []) \<and>
          (\<forall>s c. x = DString s \<and> c \<in> set s \<and> \<not> is_digit c \<and> c \<noteq> CHR ''_'' \<and> c \<noteq> CHR ''+'' \<and>
                 c \<noteq> CHR ''-'' \<and> \<not> is_int_space c \<longrightarrow> tracknumber m = []) \<and>
          (\<forall>s. x = DString s \<and> (\<forall>c\<in>set s. \<not> is_digit c) \<longrightarrow> tracknumber m = []) \<and>
          (\<forall>s. x = DString s \<and> max_str_digits < length (filter is_digit s) \<longrightarrow> tracknumber m = []))"
    unfolding f(5) by (rule to_int_str_rules)
  have c6: "(xesam_discNumber raw = None \<longrightarrow> discnumber m = []) \<and>
       (\<forall>x. xesam_discNumber raw = Some x \<longrightarrow>
          (\<forall>e. py_int x = Inl e \<longrightarrow> discnumber m = []) \<and>
          (\<forall>i. py_int x = Inr i \<and> i \<le> 0 \<longrightarrow> discnumber m = []) \<and>
          (\<forall>i. py_int x = Inr i \<and> 0 < i \<and> length (py_str_int i) \<le> max_str_digits \<longrightarrow>
                 discnumber m = py_str_int i \<and> discnumber m \<noteq> []) \<and>
          (\<forall>s c. x = DString s \<and> c \<in> set s \<and> \<not> is_digit c \<and> c \<noteq> CHR ''_'' \<and> c \<noteq> CHR ''+'' \<and>
                 c \<noteq> CHR ''-'' \<and> \<not> is_int_space c \<longrightarrow> discnumber m = []) \<and>
          (\<forall>s. x = DString s \<and> (\<forall>c\<in>set s. \<not> is_digit c) \<longrightarrow> discnumber m = []) \<and>
          (\<forall>s. x = DString s \<and> max_str_digits < length (filter is_digit s) \<longrightarrow> discnumber m = []))"
    unfolding f(6) by (rule to_int_str_rules)
  have c7: "mpris_trackid raw = None \<longrightarrow> trackid m = []" by (simp add: f(1) get_text_def)
  have c8: "xesam_title raw = None \<longrightarrow> title m = []" by (simp add: f(2) get_text_def)
  have c9: "xesam_album raw = None \<longrightarrow> album m = []" by (simp add: f(3) get_text_def)
  have c10: "xesam_url raw = None \<longrightarrow> url m = []" by (simp add: f(4) get_text_def)
  have c11: "\<forall>x. mpris_trackid raw = Some x \<longrightarrow> trackid m = py_str x" by (simp add: f(1) get_text_def)
  have c12: "\<forall>x. xesam_title raw = Some x \<longrightarrow> title m = py_str x" by (simp add: f(2) get_text_def)
  have c13: "\<forall>x. xesam_album raw = Some x \<longrightarrow> album m = py_str x" by (simp add: f(3) get_text_def)
  have c14: "\<forall>x. xesam_url raw = Some x \<longrightarrow> url m = py_str x" by (simp add: f(4) get_text_def)
  have c15: "xesam_artist raw = None \<longrightarrow> artist m = []" using f(7) by blast
  have c16: "\<forall>v. xesam_artist raw = Some v \<and> \<not> truthy v \<longrightarrow> artist m = []" using f(8) by blast
  have c17: "\<forall>x xs. xesam_artist raw = Some (DArray (x # xs)) \<longrightarrow> artist m = py_str x" using f(9) by blast
  have c18: "\<forall>c cs. xesam_artist raw = Some (DBasic (DString (c # cs))) \<longrightarrow> artist m = [c]" using f(10) by blast
  show "(tracknumber m = [] \<or> (\<exists>i>0. tracknumber m = py_str_int i)) \<and>
      (discnumber m = [] \<or> (\<exists>i>0. discnumber m = py_str_int i)) \<and>
      tracknumber m \<noteq> ''0'' \<and> discnumber m \<noteq> ''0'' \<and>
      ((xesam_trackNumber raw = None \<longrightarrow> tracknumber m = []) \<and>
       (\<forall>x. xesam_trackNumber raw = Some x \<longrightarrow>
          (\<forall>e. py_int x = Inl e \<longrightarrow> tracknumber m = []) \<and>
          (\<forall>i. py_int x = Inr i \<and> i \<le> 0 \<longrightarrow> tracknumber m = []) \<and>
          (\<forall>i. py_int x = Inr i \<and> 0 < i \<and> length (py_str_int i) \<le> max_str_digits \<longrightarrow>
                 tracknumber m = py_str_int i \<and> tracknumber m \<noteq> []) \<and>
          (\<forall>s c. x = DString s \<and> c \<in> set s \<and> \<not> is_digit c \<and> c \<noteq> CHR ''_'' \<and> c \<noteq> CHR ''+'' \<and>
                 c \<noteq> CHR ''-'' \<and> \<not> is_int_space c \<longrightarrow> tracknumber m = []) \<and>
          (\<forall>s. x = DString s \<and> (\<forall>c\<in>set s. \<not> is_digit c) \<longrightarrow> tracknumber m = []) \<and>
          (\<forall>s. x = DString s \<and> max_str_digits < length (filter is_digit s) \<longrightarrow> tracknumber m = []))) \<and>
      ((xesam_discNumber raw = None \<longrightarrow> discnumber m = []) \<and>
       (\<forall>x. xesam_discNumber raw = Some x \<longrightarrow>
          (\<forall>e. py_int x = Inl e \<longrightarrow> discnumber m = []) \<and>
          (\<forall>i. py_int x = Inr i \<and> i \<le> 0 \<longrightarrow> discnumber m = []) \<and>
          (\<forall>i. py_int x = Inr i \<and> 0 < i \<and> length (py_str_int i) \<le> max_str_digits \<longrightarrow>
                 discnumber m = py_str_int i \<and> discnumber m \<noteq> []) \<and>
          (\<forall>s c. x = DString s \<and> c \<in> set s \<and> \<not> is_digit c \<and> c \<noteq> CHR ''_'' \<and> c \<noteq> CHR ''+'' \<and>
                 c \<noteq> CHR ''-'' \<and> \<not> is_int_space c \<longrightarrow> discnumber m = []) \<and>
          (\<forall>s. x = DString s \<and> (\<forall>c\<in>set s. \<not> is_digit c) \<longrightarrow> discnumber m = []) \<and>
          (\<forall>s. x = DString s \<and> max_str_digits < length (filter is_digit s) \<longrightarrow> discnumber m = []))) \<and>
      (mpris_trackid raw = None \<longrightarrow> trackid m = []) \<and>
      (xesam_title raw = None \<longrightarrow> title m = []) \<and>
      (xesam_album raw = None \<longrightarrow> album m = []) \<and>
      (xesam_url raw = None \<longrightarrow> url m = []) \<and>
      (\<forall>x. mpris_trackid raw = Some x \<longrightarrow> trackid m = py_str x) \<and>
      (\<forall>x. xesam_title raw = Some x \<longrightarrow> title m = py_str x) \<and>
      (\<forall>x. xesam_album raw = Some x \<longrightarrow> album m = py_str x) \<and>
      (\<forall>x. xesam_url raw = Some x \<longrightarrow> url m = py_str x) \<and>
      (xesam_artist raw = None \<longrightarrow> artist m = []) \<and>
      (\<forall>v. xesam_artist raw = Some v \<and> \<not> truthy v \<longrightarrow> artist m = []) \<and>
      (\<forall>x xs. xesam_artist raw = Some (DArray (x # xs)) \<longrightarrow> artist m = py_str x) \<and>
      (\<forall>c cs. xesam_artist raw = Some (DBasic (DString (c # cs))) \<longrightarrow> artist m = [c])"
    by (rule conjI, rule c1, rule conjI, rule c2, rule conjI, rule c3, rule conjI, rule c4, rule conjI, rule c5, rule conjI, rule c6, rule conjI, rule c7, rule conjI, rule c8, rule conjI, rule c9, rule conjI, rule c10, rule conjI, rule c11, rule conjI, rule c12, rule conjI, rule c13, rule conjI, rule c14, rule conjI, rule c15, rule conjI, rule c16, rule conjI, rule c17, rule c18)
qed


theorem get_metadata_normalizes_witness:
  "(\<exists>m. get_metadata sample_bag = Inr m \<and> tracknumber m = ''12'' \<and> discnumber m = [] \<and>
        artist m = ''A'' \<and> album m = ''A'' \<and> title m = [] \<and> url m = [] \<and> trackid m = []) \<and>
   (\<exists>m. get_metadata spoiled_bag = Inr m \<and> tracknumber m = [] \<and> discnumber m = [] \<and>
        artist m = []) \<and>
   (\<exists>m. get_metadata long_bag = Inr m \<and> tracknumber m = []) \<and>
   py_int (DString '' 1_2 '') = Inr 12 \<and>
   py_int (DString ''12a'') = Inl ValueError \<and>
   py_int (DString (''12'' @ [CHR 0x1C])) = Inl ValueError"
proof -
  have p1: "py_int (DString '' 1_2 '') = Inr 12"
    by (simp add: int_of_string_def strip_where_def is_int_space_def is_digit_def
          nat_of_digits_def digit_val_def max_str_digits_def)
  have p2: "py_int (DString ''12a'') = Inl ValueError"
    by (simp add: int_of_string_def strip_where_def is_int_space_def is_digit_def)
  have p3: "py_int (DString (''12'' @ [CHR 0x1C])) = Inl ValueError"
    by (simp add: int_of_string_def strip_where_def is_int_space_def is_digit_def)
  have p4: "py_int (DInt 0) = Inr 0" by simp
  have s12: "py_str_int 12 = ''12''" by (simp add: py_str_int_def str_nat.simps digit_char_def)
  have l12: "length (py_str_int 12) \<le> max_str_digits" by (simp add: s12 max_str_digits_def)
  have f: "xesam_trackNumber sample_bag = Some (DString '' 1_2 '')"
    "xesam_discNumber sample_bag = Some (DString ''12a'')"
    "mpris_trackid sample_bag = None" "xesam_title sample_bag = None" "xesam_url sample_bag = None"
    "xesam_artist sample_bag = Some (DBasic (DString ''AC''))" "xesam_album sample_bag = Some (DString ''A'')"
    by (simp_all add: sample_bag_def)
  have g: "xesam_trackNumber spoiled_bag = Some (DString (''12'' @ [CHR 0x1C]))"
    "xesam_discNumber spoiled_bag = Some (DInt 0)" "xesam_artist spoiled_bag = Some (DArray [])"
    by (simp_all add: spoiled_bag_def)
  have "\<exists>m. get_metadata sample_bag = Inr m"
    using get_metadata_normalizes [of sample_bag, THEN conjunct1] by (simp add: f)
  then obtain m where m: "get_metadata sample_bag = Inr m" by blast
  note P = get_metadata_normalizes [of sample_bag, THEN conjunct2, rule_format, OF m]
  have a: "tracknumber m = ''12'' \<and> discnumber m = [] \<and> artist m = ''A'' \<and> album m = ''A'' \<and>
           title m = [] \<and> url m = [] \<and> trackid m = []"
    using P p1 p2 l12 unfolding f by (auto simp: s12)
  have "\<exists>m. get_metadata spoiled_bag = Inr m"
    using get_metadata_normalizes [of spoiled_bag, THEN conjunct1] by (simp add: g)
  then obtain m' where m': "get_metadata spoiled_bag = Inr m'" by blast
  note Q = get_metadata_normalizes [of spoiled_bag, THEN conjunct2, rule_format, OF m']
  have b: "tracknumber m' = [] \<and> discnumber m' = [] \<and> artist m' = []"
    using Q p3 p4 unfolding g by auto
  have h: "xesam_trackNumber long_bag = Some (DString (replicate 4301 (CHR ''7'')))"
    "xesam_artist long_bag = None"
    by (simp_all add: long_bag_def)
  have big: "max_str_digits < length (filter is_digit (replicate 4301 (CHR ''7'')))"
    by (simp add: is_digit_def max_str_digits_def)
  have "\<exists>m. get_metadata long_bag = Inr m"
    using get_metadata_normalizes [of long_bag, THEN conjunct1] by (simp add: h)
  then obtain m'' where m'': "get_metadata long_bag = Inr m''" by blast
  note R = get_metadata_normalizes [of long_bag, THEN conjunct2, rule_format, OF m'']
  note G = R [THEN conjunct2, THEN conjunct2, THEN conjunct2, THEN conjunct2, THEN conjunct1,
      THEN conjunct2, rule_format, OF h(1)]
  note G6 = G [THEN conjunct2, THEN conjunct2, THEN conjunct2, THEN conjunct2, THEN conjunct2,
      rule_format, of "replicate 4301 (CHR ''7'')"]
  have c: "tracknumber m'' = []"
    by (rule G6) (simp add: big)
  from m a m' b m'' c p1 p2 p3 show ?thesis by blast
qed

end
